theory Spec2Isabelle
  imports Complex_Main "HOL-Library.Monad_Syntax"
begin

section \<open>Numbers and arrays of the d2q9-bgk program\<close>

text \<open>
  A C \<^verbatim>\<open>float\<close> is modelled in exact arithmetic: \<open>Finite r\<close> is the real number
  \<open>r\<close> (rounding and overflow are left to the section on single precision), and
  \<open>NonFinite\<close> stands for a value
  that is no real number, which the float arithmetic produces when a division has a
  zero divisor: a NaN (\<open>0 / 0\<close>) or an infinity, which the model does not tell apart.
  Every operation with a \<open>NonFinite\<close> operand gives \<open>NonFinite\<close>, and a comparison
  against it is false, as a comparison against a NaN is.
\<close>

datatype cfloat = Finite real | NonFinite

instantiation cfloat :: "{comm_monoid_add, one, minus, uminus, times, inverse}"
begin

definition zero_cfloat :: cfloat where
  "zero_cfloat = Finite 0"

definition one_cfloat :: cfloat where
  "one_cfloat = Finite 1"

fun plus_cfloat :: "cfloat \<Rightarrow> cfloat \<Rightarrow> cfloat" where
  "plus_cfloat (Finite a) (Finite b) = Finite (a + b)"
| "plus_cfloat _ _ = NonFinite"

fun minus_cfloat :: "cfloat \<Rightarrow> cfloat \<Rightarrow> cfloat" where
  "minus_cfloat (Finite a) (Finite b) = Finite (a - b)"
| "minus_cfloat _ _ = NonFinite"

fun uminus_cfloat :: "cfloat \<Rightarrow> cfloat" where
  "uminus_cfloat (Finite a) = Finite (- a)"
| "uminus_cfloat NonFinite = NonFinite"

fun times_cfloat :: "cfloat \<Rightarrow> cfloat \<Rightarrow> cfloat" where
  "times_cfloat (Finite a) (Finite b) = Finite (a * b)"
| "times_cfloat _ _ = NonFinite"

fun divide_cfloat :: "cfloat \<Rightarrow> cfloat \<Rightarrow> cfloat" where
  "divide_cfloat (Finite a) (Finite b) = (if b = 0 then NonFinite else Finite (a / b))"
| "divide_cfloat _ _ = NonFinite"

definition inverse_cfloat :: "cfloat \<Rightarrow> cfloat" where
  "inverse_cfloat x = divide (Finite 1) x"

instance
proof
  fix u v w :: cfloat
  show "u + v + w = u + (v + w)"
  proof (cases u)
    case (Finite r)
    then show ?thesis
      by (cases v; cases w) (simp_all add: add.assoc)
  next
    case NonFinite
    then show ?thesis by simp
  qed
  show "u + v = v + u"
  proof (cases u)
    case (Finite r)
    then show ?thesis
      by (cases v) (simp_all add: add.commute)
  next
    case NonFinite
    then show ?thesis by (cases v) simp_all
  qed
  show "0 + u = u"
    unfolding zero_cfloat_def by (cases u) simp_all
qed

end

text \<open>\<^verbatim>\<open>a > b\<close> on floats.\<close>

fun fgt :: "cfloat \<Rightarrow> cfloat \<Rightarrow> bool" where
  "fgt (Finite a) (Finite b) = (b < a)"
| "fgt _ _ = False"

text \<open>\<^verbatim>\<open>sqrtf\<close>: the square root of a negative number is a NaN.\<close>

fun sqrtf :: "cfloat \<Rightarrow> cfloat" where
  "sqrtf (Finite a) = (if a < 0 then NonFinite else Finite (sqrt a))"
| "sqrtf NonFinite = NonFinite"

text \<open>The conversion \<^verbatim>\<open>(float)n\<close> of an \<^verbatim>\<open>int\<close>.\<close>

definition float_of_int :: "int \<Rightarrow> cfloat" where
  "float_of_int n = Finite (of_int n)"

text \<open>
  \<^verbatim>\<open>t_param\<close> and \<^verbatim>\<open>t_speed\<close>. The C \<^verbatim>\<open>int\<close>s are unbounded integers here: every
  index the program computes lies below \<open>nx * ny\<close>, the number of cells that
  \<^verbatim>\<open>initialise\<close> allocates.
\<close>

record t_param =
  nx :: int
  ny :: int
  maxIters :: int
  reynolds_dim :: int
  density :: cfloat
  accel :: cfloat
  omega :: cfloat

record t_speed =
  speeds0 :: "cfloat list"
  speeds1 :: "cfloat list"
  speeds2 :: "cfloat list"
  speeds3 :: "cfloat list"
  speeds4 :: "cfloat list"
  speeds5 :: "cfloat list"
  speeds6 :: "cfloat list"
  speeds7 :: "cfloat list"
  speeds8 :: "cfloat list"

text \<open>
  An array is a list. \<open>rd a i\<close> is the read \<^verbatim>\<open>a[i]\<close> and \<open>wr a i v\<close> the write
  \<^verbatim>\<open>a[i] = v\<close>; an index outside the array is undefined behaviour in C and
  \<open>None\<close> here, so that a function of the model returns \<open>Some\<close> only when every
  access it made was inside its array.
\<close>

definition rd :: "'a list \<Rightarrow> int \<Rightarrow> 'a option" where
  "rd a i = (if 0 \<le> i \<and> i < int (length a) then Some (a ! nat i) else None)"

definition wr :: "'a list \<Rightarrow> int \<Rightarrow> 'a \<Rightarrow> 'a list option" where
  "wr a i v = (if 0 \<le> i \<and> i < int (length a) then Some (a[nat i := v]) else None)"

text \<open>
  \<^verbatim>\<open>for (int i = 0; i < n; i++) body\<close> is \<open>for_each [0..n - 1] body\<close>: the body runs on
  the state for every index in order and the loop stops at the first failing access.
\<close>

primrec for_each :: "int list \<Rightarrow> (int \<Rightarrow> 's \<Rightarrow> 's option) \<Rightarrow> 's \<Rightarrow> 's option" where
  "for_each [] body s = Some s"
| "for_each (i # is) body s = (case body i s of None \<Rightarrow> None | Some s' \<Rightarrow> for_each is body s')"

section \<open>accelerate\_flow\<close>

text \<open>
  The body of the loop of \<^verbatim>\<open>accelerate_flow\<close> at column \<open>ii\<close> of row \<open>jj\<close>. The
  condition is a chain of \<^verbatim>\<open>&&\<close>, evaluated left to right, so a speed is read only
  when the tests before it passed.
\<close>

definition accelerate_cell ::
  "t_param \<Rightarrow> int list \<Rightarrow> cfloat \<Rightarrow> cfloat \<Rightarrow> int \<Rightarrow> int \<Rightarrow> t_speed \<Rightarrow> t_speed option" where
  "accelerate_cell params obstacles w1 w2 jj ii cells =
     (let k = ii + jj * nx params in
      do {
        ob \<leftarrow> rd obstacles k;
        if ob \<noteq> 0 then Some cells else
        do {
          c3 \<leftarrow> rd (speeds3 cells) k;
          if \<not> fgt (c3 - w1) (Finite 0) then Some cells else
          do {
            c6 \<leftarrow> rd (speeds6 cells) k;
            if \<not> fgt (c6 - w2) (Finite 0) then Some cells else
            do {
              c7 \<leftarrow> rd (speeds7 cells) k;
              if \<not> fgt (c7 - w2) (Finite 0) then Some cells else
              do {
                c1 \<leftarrow> rd (speeds1 cells) k;
                a1 \<leftarrow> wr (speeds1 cells) k (c1 + w1);
                c5 \<leftarrow> rd (speeds5 cells) k;
                a5 \<leftarrow> wr (speeds5 cells) k (c5 + w2);
                c8 \<leftarrow> rd (speeds8 cells) k;
                a8 \<leftarrow> wr (speeds8 cells) k (c8 + w2);
                a3 \<leftarrow> wr (speeds3 cells) k (c3 - w1);
                a6 \<leftarrow> wr (speeds6 cells) k (c6 - w2);
                a7 \<leftarrow> wr (speeds7 cells) k (c7 - w2);
                Some (cells\<lparr>speeds1 := a1, speeds5 := a5, speeds8 := a8,
                             speeds3 := a3, speeds6 := a6, speeds7 := a7\<rparr>)
              }
            }
          }
        }
      })"

definition accelerate_flow :: "t_param \<Rightarrow> t_speed \<Rightarrow> int list \<Rightarrow> t_speed option" where
  "accelerate_flow params cells obstacles =
     (let w1 = density params * accel params / Finite 9;
          w2 = density params * accel params / Finite 36;
          jj = ny params - 2
      in for_each [0..nx params - 1] (accelerate_cell params obstacles w1 w2 jj) cells)"

section \<open>timestep\<close>

type_synonym speeds9 =
  "cfloat \<times> cfloat \<times> cfloat \<times> cfloat \<times> cfloat \<times> cfloat \<times> cfloat \<times> cfloat \<times> cfloat"

text \<open>
  The nine reads \<^verbatim>\<open>s0\<close> .. \<^verbatim>\<open>s8\<close> of \<^verbatim>\<open>timestep\<close> at column \<open>ii\<close> of row \<open>jj\<close>,
  with the neighbour columns \<^verbatim>\<open>x_e\<close> and \<^verbatim>\<open>x_w\<close> computed as the source does; the
  neighbour rows \<^verbatim>\<open>y_s\<close> and \<^verbatim>\<open>y_n\<close> come from the outer loop.
\<close>

definition pull :: "t_param \<Rightarrow> t_speed \<Rightarrow> int \<Rightarrow> int \<Rightarrow> int \<Rightarrow> int \<Rightarrow> speeds9 option" where
  "pull params cells jj y_s y_n ii =
     (let x_e = (ii + 1) mod nx params;
          x_w = (if ii = 0 then ii + nx params - 1 else ii - 1)
      in do {
        s0 \<leftarrow> rd (speeds0 cells) (ii + jj * nx params);
        s1 \<leftarrow> rd (speeds1 cells) (x_w + jj * nx params);
        s2 \<leftarrow> rd (speeds2 cells) (ii + y_s * nx params);
        s3 \<leftarrow> rd (speeds3 cells) (x_e + jj * nx params);
        s4 \<leftarrow> rd (speeds4 cells) (ii + y_n * nx params);
        s5 \<leftarrow> rd (speeds5 cells) (x_w + y_s * nx params);
        s6 \<leftarrow> rd (speeds6 cells) (x_e + y_s * nx params);
        s7 \<leftarrow> rd (speeds7 cells) (x_e + y_n * nx params);
        s8 \<leftarrow> rd (speeds8 cells) (x_w + y_n * nx params);
        Some (s0, s1, s2, s3, s4, s5, s6, s7, s8)
      })"

text \<open>
  The arithmetic of the fluid branch of \<^verbatim>\<open>timestep\<close>: from the pulled values, the nine
  values it writes to the scratch grid and the norm it adds to \<^verbatim>\<open>tot_u\<close>.
\<close>

definition relax :: "cfloat \<Rightarrow> speeds9 \<Rightarrow> speeds9 \<times> cfloat" where
  "relax om s =
     (case s of (s0, s1, s2, s3, s4, s5, s6, s7, s8) \<Rightarrow>
      let c_sq_inv = Finite 3;
          w0 = Finite 4 / Finite 9;
          w1 = Finite 1 / Finite 9;
          w2 = Finite 1 / Finite 36;
          local_density = s0 + s1 + s2 + s3 + s4 + s5 + s6 + s7 + s8;
          u_x = (s1 + s5 + s8 - (s3 + s6 + s7)) / local_density;
          u_y = (s2 + s5 + s6 - (s4 + s7 + s8)) / local_density;
          u_sq = u_x * u_x + u_y * u_y;
          d_equ0 = w0 * local_density * (Finite 1 - u_sq * (Finite 0.5 * c_sq_inv));
          d_equ1 = w1 * local_density * (Finite 1 + (u_x * c_sq_inv)
                     + (u_x * u_x) * (Finite 0.5 * c_sq_inv * c_sq_inv)
                     - u_sq * (Finite 0.5 * c_sq_inv));
          d_equ2 = w1 * local_density * (Finite 1 + (u_y * c_sq_inv)
                     + (u_y * u_y) * (Finite 0.5 * c_sq_inv * c_sq_inv)
                     - u_sq * (Finite 0.5 * c_sq_inv));
          d_equ3 = w1 * local_density * (Finite 1 + (- u_x * c_sq_inv)
                     + (u_x * u_x) * (Finite 0.5 * c_sq_inv * c_sq_inv)
                     - u_sq * (Finite 0.5 * c_sq_inv));
          d_equ4 = w1 * local_density * (Finite 1 + (- u_y * c_sq_inv)
                     + (u_y * u_y) * (Finite 0.5 * c_sq_inv * c_sq_inv)
                     - u_sq * (Finite 0.5 * c_sq_inv));
          d_equ5 = w2 * local_density * (Finite 1 + ((u_x + u_y) * c_sq_inv)
                     + ((u_x + u_y) * (u_x + u_y)) * (Finite 0.5 * c_sq_inv * c_sq_inv)
                     - u_sq * (Finite 0.5 * c_sq_inv));
          d_equ6 = w2 * local_density * (Finite 1 + ((- u_x + u_y) * c_sq_inv)
                     + ((- u_x + u_y) * (- u_x + u_y)) * (Finite 0.5 * c_sq_inv * c_sq_inv)
                     - u_sq * (Finite 0.5 * c_sq_inv));
          d_equ7 = w2 * local_density * (Finite 1 + ((- u_x - u_y) * c_sq_inv)
                     + ((- u_x - u_y) * (- u_x - u_y)) * (Finite 0.5 * c_sq_inv * c_sq_inv)
                     - u_sq * (Finite 0.5 * c_sq_inv));
          d_equ8 = w2 * local_density * (Finite 1 + ((u_x - u_y) * c_sq_inv)
                     + ((u_x - u_y) * (u_x - u_y)) * (Finite 0.5 * c_sq_inv * c_sq_inv)
                     - u_sq * (Finite 0.5 * c_sq_inv))
      in ((s0 + om * (d_equ0 - s0),
           s1 + om * (d_equ1 - s1),
           s2 + om * (d_equ2 - s2),
           s3 + om * (d_equ3 - s3),
           s4 + om * (d_equ4 - s4),
           s5 + om * (d_equ5 - s5),
           s6 + om * (d_equ6 - s6),
           s7 + om * (d_equ7 - s7),
           s8 + om * (d_equ8 - s8)),
          sqrtf ((u_x * u_x) + (u_y * u_y))))"

text \<open>
  The body of the inner loop of \<^verbatim>\<open>timestep\<close>. The state is the scratch grid
  \<^verbatim>\<open>tmp_cells\<close> with the accumulators \<^verbatim>\<open>tot_u\<close> and \<^verbatim>\<open>tot_cells\<close>; the grid \<^verbatim>\<open>cells\<close>
  is only read. The two \<^verbatim>\<open>if\<close>s of the source test the obstacle flag one after the
  other; the obstacle branch writes the directions 1 to 8 and no other.
\<close>

definition timestep_cell ::
  "t_param \<Rightarrow> t_speed \<Rightarrow> int list \<Rightarrow> int \<Rightarrow> int \<Rightarrow> int \<Rightarrow> int
     \<Rightarrow> t_speed \<times> cfloat \<times> int \<Rightarrow> (t_speed \<times> cfloat \<times> int) option" where
  "timestep_cell params cells obstacles jj y_s y_n ii st =
     (case st of (tmp_cells, tot_u, tot_cells) \<Rightarrow>
      do {
        (s0, s1, s2, s3, s4, s5, s6, s7, s8) \<leftarrow> pull params cells jj y_s y_n ii;
        ob \<leftarrow> rd obstacles (jj * nx params + ii);
        tmp_cells \<leftarrow>
          (if ob \<noteq> 0 then
             do {
               t1 \<leftarrow> wr (speeds1 tmp_cells) (ii + jj * nx params) s3;
               t2 \<leftarrow> wr (speeds2 tmp_cells) (ii + jj * nx params) s4;
               t3 \<leftarrow> wr (speeds3 tmp_cells) (ii + jj * nx params) s1;
               t4 \<leftarrow> wr (speeds4 tmp_cells) (ii + jj * nx params) s2;
               t5 \<leftarrow> wr (speeds5 tmp_cells) (ii + jj * nx params) s7;
               t6 \<leftarrow> wr (speeds6 tmp_cells) (ii + jj * nx params) s8;
               t7 \<leftarrow> wr (speeds7 tmp_cells) (ii + jj * nx params) s5;
               t8 \<leftarrow> wr (speeds8 tmp_cells) (ii + jj * nx params) s6;
               Some (tmp_cells\<lparr>speeds1 := t1, speeds2 := t2, speeds3 := t3, speeds4 := t4,
                                 speeds5 := t5, speeds6 := t6, speeds7 := t7, speeds8 := t8\<rparr>)
             }
           else Some tmp_cells);
        ob \<leftarrow> rd obstacles (ii + jj * nx params);
        if ob = 0 then
          (case relax (omega params) (s0, s1, s2, s3, s4, s5, s6, s7, s8) of
             ((r0, r1, r2, r3, r4, r5, r6, r7, r8), u) \<Rightarrow>
             do {
               t0 \<leftarrow> wr (speeds0 tmp_cells) (ii + jj * nx params) r0;
               t1 \<leftarrow> wr (speeds1 tmp_cells) (ii + jj * nx params) r1;
               t2 \<leftarrow> wr (speeds2 tmp_cells) (ii + jj * nx params) r2;
               t3 \<leftarrow> wr (speeds3 tmp_cells) (ii + jj * nx params) r3;
               t4 \<leftarrow> wr (speeds4 tmp_cells) (ii + jj * nx params) r4;
               t5 \<leftarrow> wr (speeds5 tmp_cells) (ii + jj * nx params) r5;
               t6 \<leftarrow> wr (speeds6 tmp_cells) (ii + jj * nx params) r6;
               t7 \<leftarrow> wr (speeds7 tmp_cells) (ii + jj * nx params) r7;
               t8 \<leftarrow> wr (speeds8 tmp_cells) (ii + jj * nx params) r8;
               Some (tmp_cells\<lparr>speeds0 := t0, speeds1 := t1, speeds2 := t2, speeds3 := t3,
                                 speeds4 := t4, speeds5 := t5, speeds6 := t6, speeds7 := t7,
                                 speeds8 := t8\<rparr>,
                     tot_u + u, tot_cells + 1)
             })
        else Some (tmp_cells, tot_u, tot_cells)
      })"

text \<open>
  The two nested loops of \<^verbatim>\<open>timestep\<close> and its return value
  \<^verbatim>\<open>tot_u / (float)tot_cells\<close>: the pass that reads \<^verbatim>\<open>cells\<close> and writes \<^verbatim>\<open>tmp_cells\<close>.
  The division is not guarded.
\<close>

definition stream_collide ::
  "t_param \<Rightarrow> t_speed \<Rightarrow> t_speed \<Rightarrow> int list \<Rightarrow> (t_speed \<times> cfloat) option" where
  "stream_collide params cells tmp_cells obstacles =
     do {
       (tmp_cells, tot_u, tot_cells) \<leftarrow>
         for_each [0..ny params - 1]
           (\<lambda>jj st.
              let y_s = (if jj = 0 then jj + ny params - 1 else jj - 1);
                  y_n = (jj + 1) mod ny params
              in for_each [0..nx params - 1] (timestep_cell params cells obstacles jj y_s y_n) st)
           (tmp_cells, Finite 0, 0);
       Some (tmp_cells, tot_u / float_of_int tot_cells)
     }"

text \<open>
  \<^verbatim>\<open>timestep\<close> runs \<^verbatim>\<open>accelerate_flow\<close> on \<^verbatim>\<open>cells\<close> in place and then the pass above. The
  result is the grid \<^verbatim>\<open>cells\<close> after \<^verbatim>\<open>accelerate_flow\<close>, the scratch grid and the
  value returned.
\<close>

definition timestep ::
  "t_param \<Rightarrow> t_speed \<Rightarrow> t_speed \<Rightarrow> int list \<Rightarrow> (t_speed \<times> t_speed \<times> cfloat) option" where
  "timestep params cells tmp_cells obstacles =
     do {
       cells \<leftarrow> accelerate_flow params cells obstacles;
       (tmp_cells, av) \<leftarrow> stream_collide params cells tmp_cells obstacles;
       Some (cells, tmp_cells, av)
     }"

section \<open>Diagnostics and initial state\<close>

definition av_velocity_cell ::
  "t_param \<Rightarrow> t_speed \<Rightarrow> int list \<Rightarrow> int \<Rightarrow> int \<Rightarrow> int \<times> cfloat \<Rightarrow> (int \<times> cfloat) option" where
  "av_velocity_cell params cells obstacles jj ii st =
     (case st of (tot_cells, tot_u) \<Rightarrow>
      do {
        ob \<leftarrow> rd obstacles (ii + jj * nx params);
        if ob = 0 then
          do {
            c0 \<leftarrow> rd (speeds0 cells) (ii + jj * nx params);
            c1 \<leftarrow> rd (speeds1 cells) (ii + jj * nx params);
            c2 \<leftarrow> rd (speeds2 cells) (ii + jj * nx params);
            c3 \<leftarrow> rd (speeds3 cells) (ii + jj * nx params);
            c4 \<leftarrow> rd (speeds4 cells) (ii + jj * nx params);
            c5 \<leftarrow> rd (speeds5 cells) (ii + jj * nx params);
            c6 \<leftarrow> rd (speeds6 cells) (ii + jj * nx params);
            c7 \<leftarrow> rd (speeds7 cells) (ii + jj * nx params);
            c8 \<leftarrow> rd (speeds8 cells) (ii + jj * nx params);
            let local_density = Finite 0 + c0 + c1 + c2 + c3 + c4 + c5 + c6 + c7 + c8;
                u_x = (c1 + c5 + c8 - (c3 + c6 + c7)) / local_density;
                u_y = (c2 + c5 + c6 - (c4 + c7 + c8)) / local_density
            in Some (tot_cells + 1, tot_u + sqrtf ((u_x * u_x) + (u_y * u_y)))
          }
        else Some (tot_cells, tot_u)
      })"

definition av_velocity :: "t_param \<Rightarrow> t_speed \<Rightarrow> int list \<Rightarrow> cfloat option" where
  "av_velocity params cells obstacles =
     do {
       (tot_cells, tot_u) \<leftarrow>
         for_each [0..ny params - 1]
           (\<lambda>jj. for_each [0..nx params - 1] (av_velocity_cell params cells obstacles jj))
           (0, Finite 0);
       Some (tot_u / float_of_int tot_cells)
     }"

definition total_density_cell :: "t_param \<Rightarrow> t_speed \<Rightarrow> int \<Rightarrow> int \<Rightarrow> cfloat \<Rightarrow> cfloat option" where
  "total_density_cell params cells jj ii tot =
     do {
       c0 \<leftarrow> rd (speeds0 cells) (ii + jj * nx params);
       c1 \<leftarrow> rd (speeds1 cells) (ii + jj * nx params);
       c2 \<leftarrow> rd (speeds2 cells) (ii + jj * nx params);
       c3 \<leftarrow> rd (speeds3 cells) (ii + jj * nx params);
       c4 \<leftarrow> rd (speeds4 cells) (ii + jj * nx params);
       c5 \<leftarrow> rd (speeds5 cells) (ii + jj * nx params);
       c6 \<leftarrow> rd (speeds6 cells) (ii + jj * nx params);
       c7 \<leftarrow> rd (speeds7 cells) (ii + jj * nx params);
       c8 \<leftarrow> rd (speeds8 cells) (ii + jj * nx params);
       Some (tot + c0 + c1 + c2 + c3 + c4 + c5 + c6 + c7 + c8)
     }"

definition total_density :: "t_param \<Rightarrow> t_speed \<Rightarrow> cfloat option" where
  "total_density params cells =
     for_each [0..ny params - 1]
       (\<lambda>jj. for_each [0..nx params - 1] (total_density_cell params cells jj))
       (Finite 0)"

text \<open>
  The loop of \<^verbatim>\<open>initialise\<close> that fills the freshly allocated grid and clears the
  obstacle map (the files are read by the rest of \<^verbatim>\<open>initialise\<close>, which is not
  modelled).
\<close>

definition initialise_cell ::
  "t_param \<Rightarrow> cfloat \<Rightarrow> cfloat \<Rightarrow> cfloat \<Rightarrow> int \<Rightarrow> int
     \<Rightarrow> t_speed \<times> int list \<Rightarrow> (t_speed \<times> int list) option" where
  "initialise_cell params w0 w1 w2 jj ii st =
     (case st of (cells, obstacles) \<Rightarrow>
      do {
        a0 \<leftarrow> wr (speeds0 cells) (ii + jj * nx params) w0;
        a1 \<leftarrow> wr (speeds1 cells) (ii + jj * nx params) w1;
        a2 \<leftarrow> wr (speeds2 cells) (ii + jj * nx params) w1;
        a3 \<leftarrow> wr (speeds3 cells) (ii + jj * nx params) w1;
        a4 \<leftarrow> wr (speeds4 cells) (ii + jj * nx params) w1;
        a5 \<leftarrow> wr (speeds5 cells) (ii + jj * nx params) w2;
        a6 \<leftarrow> wr (speeds6 cells) (ii + jj * nx params) w2;
        a7 \<leftarrow> wr (speeds7 cells) (ii + jj * nx params) w2;
        a8 \<leftarrow> wr (speeds8 cells) (ii + jj * nx params) w2;
        ob \<leftarrow> wr obstacles (ii + jj * nx params) 0;
        Some (cells\<lparr>speeds0 := a0, speeds1 := a1, speeds2 := a2, speeds3 := a3,
                     speeds4 := a4, speeds5 := a5, speeds6 := a6, speeds7 := a7,
                     speeds8 := a8\<rparr>, ob)
      })"

definition initialise :: "t_param \<Rightarrow> t_speed \<Rightarrow> int list \<Rightarrow> (t_speed \<times> int list) option" where
  "initialise params cells obstacles =
     (let w0 = density params * Finite 4 / Finite 9;
          w1 = density params / Finite 9;
          w2 = density params / Finite 36
      in for_each [0..ny params - 1]
           (\<lambda>jj. for_each [0..nx params - 1] (initialise_cell params w0 w1 w2 jj))
           (cells, obstacles))"

section \<open>The program in single precision\<close>

text \<open>
  The definitions so far compute with real numbers. The C \<^verbatim>\<open>float\<close> is the IEEE binary32
  format, and the program rounds the result of every operation to it (round to
  nearest, ties to even; each operation is rounded on its own, with no wider
  intermediate format and no fused multiply-add). \<open>round32 x\<close> is the
  binary32 number nearest to the real \<open>x\<close>: \<open>norm32\<close> scales \<open>|x|\<close> by powers of two until
  it lies in \<open>[2\<^sup>2\<^sup>3, 2\<^sup>2\<^sup>4)\<close>, not going below the exponent \<open>-149\<close> of the smallest
  subnormal number, \<open>round_even\<close> rounds the scaled value to an integer, and a result of
  \<open>2\<^sup>1\<^sup>2\<^sup>8\<close> or more is an infinity. The first argument of \<open>norm32\<close> bounds the number of
  scalings; when it is used up the value is beyond the range of the format.
\<close>

fun norm32 :: "nat \<Rightarrow> real \<Rightarrow> int \<Rightarrow> real \<times> int" where
  "norm32 n m e =
     (if n = 0 then (m, e)
      else if 16777216 \<le> m then norm32 (n - 1) (m / 2) (e + 1)
      else if m < 8388608 \<and> - 149 < e then norm32 (n - 1) (m * 2) (e - 1)
      else (m, e))"

declare norm32.simps [simp del]

definition round_even :: "real \<Rightarrow> int" where
  "round_even m =
     (let f = \<lfloor>m\<rfloor>; r = m - of_int f
      in if r < 1 / 2 then f else if 1 / 2 < r then f + 1 else if even f then f else f + 1)"

definition pow2 :: "int \<Rightarrow> real" where
  "pow2 e = (if 0 \<le> e then 2 ^ nat e else 1 / 2 ^ nat (- e))"

definition round32 :: "real \<Rightarrow> cfloat" where
  "round32 x =
     (if x = 0 then Finite 0
      else case norm32 512 \<bar>x\<bar> 0 of (m, e) \<Rightarrow>
        let v = of_int (round_even m) * pow2 e
        in if 16777216 \<le> m \<or> 2 ^ 128 \<le> v then NonFinite
           else Finite (if x < 0 then - v else v))"

definition rnd :: "cfloat \<Rightarrow> cfloat" where
  "rnd a = (case a of Finite r \<Rightarrow> round32 r | NonFinite \<Rightarrow> NonFinite)"

text \<open>The four operations on \<^verbatim>\<open>float\<close>, the conversion of an \<^verbatim>\<open>int\<close> and \<^verbatim>\<open>sqrtf\<close>.\<close>

definition add32 :: "cfloat \<Rightarrow> cfloat \<Rightarrow> cfloat" where
  "add32 a b = rnd (a + b)"

definition sub32 :: "cfloat \<Rightarrow> cfloat \<Rightarrow> cfloat" where
  "sub32 a b = rnd (a - b)"

definition mul32 :: "cfloat \<Rightarrow> cfloat \<Rightarrow> cfloat" where
  "mul32 a b = rnd (a * b)"

definition div32 :: "cfloat \<Rightarrow> cfloat \<Rightarrow> cfloat" where
  "div32 a b = rnd (a / b)"

definition float_of_int32 :: "int \<Rightarrow> cfloat" where
  "float_of_int32 n = rnd (float_of_int n)"

definition sqrtf32 :: "cfloat \<Rightarrow> cfloat" where
  "sqrtf32 a = rnd (sqrtf a)"

text \<open>
  The functions of the program again, with every operation rounded. They differ from
  the definitions above only in the arithmetic: the reads, the writes, the loops and
  the tests are the same. An expression is evaluated as C parses it, from the left;
  a negation changes the sign only and needs no rounding.
\<close>

definition accelerate_cell32 ::
  "t_param \<Rightarrow> int list \<Rightarrow> cfloat \<Rightarrow> cfloat \<Rightarrow> int \<Rightarrow> int \<Rightarrow> t_speed \<Rightarrow> t_speed option" where
  "accelerate_cell32 params obstacles w1 w2 jj ii cells =
     (let k = ii + jj * nx params in
      do {
        ob \<leftarrow> rd obstacles k;
        if ob \<noteq> 0 then Some cells else
        do {
          c3 \<leftarrow> rd (speeds3 cells) k;
          if \<not> fgt (sub32 c3 w1) (Finite 0) then Some cells else
          do {
            c6 \<leftarrow> rd (speeds6 cells) k;
            if \<not> fgt (sub32 c6 w2) (Finite 0) then Some cells else
            do {
              c7 \<leftarrow> rd (speeds7 cells) k;
              if \<not> fgt (sub32 c7 w2) (Finite 0) then Some cells else
              do {
                c1 \<leftarrow> rd (speeds1 cells) k;
                a1 \<leftarrow> wr (speeds1 cells) k (add32 c1 w1);
                c5 \<leftarrow> rd (speeds5 cells) k;
                a5 \<leftarrow> wr (speeds5 cells) k (add32 c5 w2);
                c8 \<leftarrow> rd (speeds8 cells) k;
                a8 \<leftarrow> wr (speeds8 cells) k (add32 c8 w2);
                a3 \<leftarrow> wr (speeds3 cells) k (sub32 c3 w1);
                a6 \<leftarrow> wr (speeds6 cells) k (sub32 c6 w2);
                a7 \<leftarrow> wr (speeds7 cells) k (sub32 c7 w2);
                Some (cells\<lparr>speeds1 := a1, speeds5 := a5, speeds8 := a8,
                             speeds3 := a3, speeds6 := a6, speeds7 := a7\<rparr>)
              }
            }
          }
        }
      })"

definition accelerate_flow32 :: "t_param \<Rightarrow> t_speed \<Rightarrow> int list \<Rightarrow> t_speed option" where
  "accelerate_flow32 params cells obstacles =
     (let w1 = div32 (mul32 (density params) (accel params)) (Finite 9);
          w2 = div32 (mul32 (density params) (accel params)) (Finite 36);
          jj = ny params - 2
      in for_each [0..nx params - 1] (accelerate_cell32 params obstacles w1 w2 jj) cells)"

definition relax32 :: "cfloat \<Rightarrow> speeds9 \<Rightarrow> speeds9 \<times> cfloat" where
  "relax32 om s =
     (case s of (s0, s1, s2, s3, s4, s5, s6, s7, s8) \<Rightarrow>
      let c_sq_inv = Finite 3;
          w0 = div32 (Finite 4) (Finite 9);
          w1 = div32 (Finite 1) (Finite 9);
          w2 = div32 (Finite 1) (Finite 36);
          local_density =
            add32 (add32 (add32 (add32 (add32 (add32 (add32 (add32 s0 s1) s2) s3) s4) s5) s6) s7) s8;
          u_x = div32 (sub32 (add32 (add32 s1 s5) s8) (add32 (add32 s3 s6) s7)) local_density;
          u_y = div32 (sub32 (add32 (add32 s2 s5) s6) (add32 (add32 s4 s7) s8)) local_density;
          u_sq = add32 (mul32 u_x u_x) (mul32 u_y u_y);
          d_equ0 = mul32 (mul32 w0 local_density)
                     (sub32 (Finite 1) (mul32 u_sq (mul32 (Finite 0.5) c_sq_inv)));
          d_equ1 = mul32 (mul32 w1 local_density)
                     (sub32 (add32 (add32 (Finite 1) (mul32 u_x c_sq_inv))
                                   (mul32 (mul32 u_x u_x)
                                          (mul32 (mul32 (Finite 0.5) c_sq_inv) c_sq_inv)))
                            (mul32 u_sq (mul32 (Finite 0.5) c_sq_inv)));
          d_equ2 = mul32 (mul32 w1 local_density)
                     (sub32 (add32 (add32 (Finite 1) (mul32 u_y c_sq_inv))
                                   (mul32 (mul32 u_y u_y)
                                          (mul32 (mul32 (Finite 0.5) c_sq_inv) c_sq_inv)))
                            (mul32 u_sq (mul32 (Finite 0.5) c_sq_inv)));
          d_equ3 = mul32 (mul32 w1 local_density)
                     (sub32 (add32 (add32 (Finite 1) (mul32 (- u_x) c_sq_inv))
                                   (mul32 (mul32 u_x u_x)
                                          (mul32 (mul32 (Finite 0.5) c_sq_inv) c_sq_inv)))
                            (mul32 u_sq (mul32 (Finite 0.5) c_sq_inv)));
          d_equ4 = mul32 (mul32 w1 local_density)
                     (sub32 (add32 (add32 (Finite 1) (mul32 (- u_y) c_sq_inv))
                                   (mul32 (mul32 u_y u_y)
                                          (mul32 (mul32 (Finite 0.5) c_sq_inv) c_sq_inv)))
                            (mul32 u_sq (mul32 (Finite 0.5) c_sq_inv)));
          d_equ5 = mul32 (mul32 w2 local_density)
                     (sub32 (add32 (add32 (Finite 1) (mul32 (add32 u_x u_y) c_sq_inv))
                                   (mul32 (mul32 (add32 u_x u_y) (add32 u_x u_y))
                                          (mul32 (mul32 (Finite 0.5) c_sq_inv) c_sq_inv)))
                            (mul32 u_sq (mul32 (Finite 0.5) c_sq_inv)));
          d_equ6 = mul32 (mul32 w2 local_density)
                     (sub32 (add32 (add32 (Finite 1) (mul32 (add32 (- u_x) u_y) c_sq_inv))
                                   (mul32 (mul32 (add32 (- u_x) u_y) (add32 (- u_x) u_y))
                                          (mul32 (mul32 (Finite 0.5) c_sq_inv) c_sq_inv)))
                            (mul32 u_sq (mul32 (Finite 0.5) c_sq_inv)));
          d_equ7 = mul32 (mul32 w2 local_density)
                     (sub32 (add32 (add32 (Finite 1) (mul32 (sub32 (- u_x) u_y) c_sq_inv))
                                   (mul32 (mul32 (sub32 (- u_x) u_y) (sub32 (- u_x) u_y))
                                          (mul32 (mul32 (Finite 0.5) c_sq_inv) c_sq_inv)))
                            (mul32 u_sq (mul32 (Finite 0.5) c_sq_inv)));
          d_equ8 = mul32 (mul32 w2 local_density)
                     (sub32 (add32 (add32 (Finite 1) (mul32 (sub32 u_x u_y) c_sq_inv))
                                   (mul32 (mul32 (sub32 u_x u_y) (sub32 u_x u_y))
                                          (mul32 (mul32 (Finite 0.5) c_sq_inv) c_sq_inv)))
                            (mul32 u_sq (mul32 (Finite 0.5) c_sq_inv)))
      in ((add32 s0 (mul32 om (sub32 d_equ0 s0)),
           add32 s1 (mul32 om (sub32 d_equ1 s1)),
           add32 s2 (mul32 om (sub32 d_equ2 s2)),
           add32 s3 (mul32 om (sub32 d_equ3 s3)),
           add32 s4 (mul32 om (sub32 d_equ4 s4)),
           add32 s5 (mul32 om (sub32 d_equ5 s5)),
           add32 s6 (mul32 om (sub32 d_equ6 s6)),
           add32 s7 (mul32 om (sub32 d_equ7 s7)),
           add32 s8 (mul32 om (sub32 d_equ8 s8))),
          sqrtf32 (add32 (mul32 u_x u_x) (mul32 u_y u_y))))"

definition timestep_cell32 ::
  "t_param \<Rightarrow> t_speed \<Rightarrow> int list \<Rightarrow> int \<Rightarrow> int \<Rightarrow> int \<Rightarrow> int
     \<Rightarrow> t_speed \<times> cfloat \<times> int \<Rightarrow> (t_speed \<times> cfloat \<times> int) option" where
  "timestep_cell32 params cells obstacles jj y_s y_n ii st =
     (case st of (tmp_cells, tot_u, tot_cells) \<Rightarrow>
      do {
        (s0, s1, s2, s3, s4, s5, s6, s7, s8) \<leftarrow> pull params cells jj y_s y_n ii;
        ob \<leftarrow> rd obstacles (jj * nx params + ii);
        tmp_cells \<leftarrow>
          (if ob \<noteq> 0 then
             do {
               t1 \<leftarrow> wr (speeds1 tmp_cells) (ii + jj * nx params) s3;
               t2 \<leftarrow> wr (speeds2 tmp_cells) (ii + jj * nx params) s4;
               t3 \<leftarrow> wr (speeds3 tmp_cells) (ii + jj * nx params) s1;
               t4 \<leftarrow> wr (speeds4 tmp_cells) (ii + jj * nx params) s2;
               t5 \<leftarrow> wr (speeds5 tmp_cells) (ii + jj * nx params) s7;
               t6 \<leftarrow> wr (speeds6 tmp_cells) (ii + jj * nx params) s8;
               t7 \<leftarrow> wr (speeds7 tmp_cells) (ii + jj * nx params) s5;
               t8 \<leftarrow> wr (speeds8 tmp_cells) (ii + jj * nx params) s6;
               Some (tmp_cells\<lparr>speeds1 := t1, speeds2 := t2, speeds3 := t3, speeds4 := t4,
                                 speeds5 := t5, speeds6 := t6, speeds7 := t7, speeds8 := t8\<rparr>)
             }
           else Some tmp_cells);
        ob \<leftarrow> rd obstacles (ii + jj * nx params);
        if ob = 0 then
          (case relax32 (omega params) (s0, s1, s2, s3, s4, s5, s6, s7, s8) of
             ((r0, r1, r2, r3, r4, r5, r6, r7, r8), u) \<Rightarrow>
             do {
               t0 \<leftarrow> wr (speeds0 tmp_cells) (ii + jj * nx params) r0;
               t1 \<leftarrow> wr (speeds1 tmp_cells) (ii + jj * nx params) r1;
               t2 \<leftarrow> wr (speeds2 tmp_cells) (ii + jj * nx params) r2;
               t3 \<leftarrow> wr (speeds3 tmp_cells) (ii + jj * nx params) r3;
               t4 \<leftarrow> wr (speeds4 tmp_cells) (ii + jj * nx params) r4;
               t5 \<leftarrow> wr (speeds5 tmp_cells) (ii + jj * nx params) r5;
               t6 \<leftarrow> wr (speeds6 tmp_cells) (ii + jj * nx params) r6;
               t7 \<leftarrow> wr (speeds7 tmp_cells) (ii + jj * nx params) r7;
               t8 \<leftarrow> wr (speeds8 tmp_cells) (ii + jj * nx params) r8;
               Some (tmp_cells\<lparr>speeds0 := t0, speeds1 := t1, speeds2 := t2, speeds3 := t3,
                                 speeds4 := t4, speeds5 := t5, speeds6 := t6, speeds7 := t7,
                                 speeds8 := t8\<rparr>,
                     add32 tot_u u, tot_cells + 1)
             })
        else Some (tmp_cells, tot_u, tot_cells)
      })"

definition stream_collide32 ::
  "t_param \<Rightarrow> t_speed \<Rightarrow> t_speed \<Rightarrow> int list \<Rightarrow> (t_speed \<times> cfloat) option" where
  "stream_collide32 params cells tmp_cells obstacles =
     do {
       (tmp_cells, tot_u, tot_cells) \<leftarrow>
         for_each [0..ny params - 1]
           (\<lambda>jj st.
              let y_s = (if jj = 0 then jj + ny params - 1 else jj - 1);
                  y_n = (jj + 1) mod ny params
              in for_each [0..nx params - 1] (timestep_cell32 params cells obstacles jj y_s y_n) st)
           (tmp_cells, Finite 0, 0);
       Some (tmp_cells, div32 tot_u (float_of_int32 tot_cells))
     }"

definition timestep32 ::
  "t_param \<Rightarrow> t_speed \<Rightarrow> t_speed \<Rightarrow> int list \<Rightarrow> (t_speed \<times> t_speed \<times> cfloat) option" where
  "timestep32 params cells tmp_cells obstacles =
     do {
       cells \<leftarrow> accelerate_flow32 params cells obstacles;
       (tmp_cells, av) \<leftarrow> stream_collide32 params cells tmp_cells obstacles;
       Some (cells, tmp_cells, av)
     }"

definition initialise32 :: "t_param \<Rightarrow> t_speed \<Rightarrow> int list \<Rightarrow> (t_speed \<times> int list) option" where
  "initialise32 params cells obstacles =
     (let w0 = div32 (mul32 (density params) (Finite 4)) (Finite 9);
          w1 = div32 (density params) (Finite 9);
          w2 = div32 (density params) (Finite 36)
      in for_each [0..ny params - 1]
           (\<lambda>jj. for_each [0..nx params - 1] (initialise_cell params w0 w1 w2 jj))
           (cells, obstacles))"

section \<open>Closed forms of the loops and the quantities the properties speak of\<close>

subsection \<open>Grids of the right size and their cells\<close>

text \<open>
  \<^verbatim>\<open>initialise\<close> allocates every array with \<open>ny * nx\<close> elements: \<open>sized\<close> says so of one
  array and \<open>allocated\<close> of the nine arrays of a grid. Cell \<open>(x, y)\<close> has the index
  \<open>x + y * nx\<close> in each of them; \<open>cell_of cells k\<close> is the nine values of the cell with
  index \<open>k\<close>, and \<open>sel0\<close> .. \<open>sel8\<close> select one direction of nine values.
\<close>

definition sized :: "t_param \<Rightarrow> 'a list \<Rightarrow> bool" where
  "sized params a \<longleftrightarrow> int (length a) = nx params * ny params"

definition allocated :: "t_param \<Rightarrow> t_speed \<Rightarrow> bool" where
  "allocated params cells \<longleftrightarrow>
     sized params (speeds0 cells) \<and> sized params (speeds1 cells) \<and> sized params (speeds2 cells) \<and>
     sized params (speeds3 cells) \<and> sized params (speeds4 cells) \<and> sized params (speeds5 cells) \<and>
     sized params (speeds6 cells) \<and> sized params (speeds7 cells) \<and> sized params (speeds8 cells)"

fun sel0 :: "speeds9 \<Rightarrow> cfloat" where "sel0 (s0, s1, s2, s3, s4, s5, s6, s7, s8) = s0"

fun sel1 :: "speeds9 \<Rightarrow> cfloat" where "sel1 (s0, s1, s2, s3, s4, s5, s6, s7, s8) = s1"

fun sel2 :: "speeds9 \<Rightarrow> cfloat" where "sel2 (s0, s1, s2, s3, s4, s5, s6, s7, s8) = s2"

fun sel3 :: "speeds9 \<Rightarrow> cfloat" where "sel3 (s0, s1, s2, s3, s4, s5, s6, s7, s8) = s3"

fun sel4 :: "speeds9 \<Rightarrow> cfloat" where "sel4 (s0, s1, s2, s3, s4, s5, s6, s7, s8) = s4"

fun sel5 :: "speeds9 \<Rightarrow> cfloat" where "sel5 (s0, s1, s2, s3, s4, s5, s6, s7, s8) = s5"

fun sel6 :: "speeds9 \<Rightarrow> cfloat" where "sel6 (s0, s1, s2, s3, s4, s5, s6, s7, s8) = s6"

fun sel7 :: "speeds9 \<Rightarrow> cfloat" where "sel7 (s0, s1, s2, s3, s4, s5, s6, s7, s8) = s7"

fun sel8 :: "speeds9 \<Rightarrow> cfloat" where "sel8 (s0, s1, s2, s3, s4, s5, s6, s7, s8) = s8"

definition cell_of :: "t_speed \<Rightarrow> nat \<Rightarrow> speeds9" where
  "cell_of cells k =
     (speeds0 cells ! k, speeds1 cells ! k, speeds2 cells ! k, speeds3 cells ! k, speeds4 cells ! k,
      speeds5 cells ! k, speeds6 cells ! k, speeds7 cells ! k, speeds8 cells ! k)"

text \<open>
  The local density of a cell as \<^verbatim>\<open>timestep\<close> and \<^verbatim>\<open>total_density\<close> add it up, and the
  norm of the velocity of a cell as \<^verbatim>\<open>av_velocity\<close> computes it.
\<close>

definition cell_density :: "speeds9 \<Rightarrow> cfloat" where
  "cell_density c = (case c of (c0, c1, c2, c3, c4, c5, c6, c7, c8) \<Rightarrow>
     c0 + c1 + c2 + c3 + c4 + c5 + c6 + c7 + c8)"

definition cell_speed :: "speeds9 \<Rightarrow> cfloat" where
  "cell_speed c = (case c of (c0, c1, c2, c3, c4, c5, c6, c7, c8) \<Rightarrow>
     let local_density = Finite 0 + c0 + c1 + c2 + c3 + c4 + c5 + c6 + c7 + c8;
         u_x = (c1 + c5 + c8 - (c3 + c6 + c7)) / local_density;
         u_y = (c2 + c5 + c6 - (c4 + c7 + c8)) / local_density
     in sqrtf ((u_x * u_x) + (u_y * u_y)))"

subsection \<open>What the loops have done after a number of cells\<close>

text \<open>
  \<open>upd_range f old lo hi\<close> is the array \<open>old\<close> with the elements of index \<open>lo \<le> k < hi\<close>
  replaced by \<open>f k\<close>. Each loop of the program visits the cells in the order of their
  index, so its state after the cells below an index is written with it.
\<close>

definition upd_range :: "(nat \<Rightarrow> 'a) \<Rightarrow> 'a list \<Rightarrow> int \<Rightarrow> int \<Rightarrow> 'a list" where
  "upd_range f old lo hi =
     map (\<lambda>k. if lo \<le> int k \<and> int k < hi then f k else old ! k) [0..<length old]"

text \<open>
  \<^verbatim>\<open>accelerate_flow\<close> after the columns below \<open>m\<close> of row \<open>ny - 2\<close>: \<open>accel_applies\<close> is the
  condition of its \<^verbatim>\<open>if\<close> on the values of the grid before the call.
\<close>

definition accel_w1 :: "t_param \<Rightarrow> cfloat" where
  "accel_w1 params = density params * accel params / Finite 9"

definition accel_w2 :: "t_param \<Rightarrow> cfloat" where
  "accel_w2 params = density params * accel params / Finite 36"

definition accel_applies :: "t_param \<Rightarrow> t_speed \<Rightarrow> int list \<Rightarrow> nat \<Rightarrow> bool" where
  "accel_applies params cells obstacles k \<longleftrightarrow>
     obstacles ! k = 0 \<and>
     fgt (speeds3 cells ! k - accel_w1 params) (Finite 0) \<and>
     fgt (speeds6 cells ! k - accel_w2 params) (Finite 0) \<and>
     fgt (speeds7 cells ! k - accel_w2 params) (Finite 0)"

definition accelerate_upto :: "t_param \<Rightarrow> t_speed \<Rightarrow> int list \<Rightarrow> int \<Rightarrow> t_speed" where
  "accelerate_upto params cells obstacles m =
     (let lo = (ny params - 2) * nx params;
          ap = accel_applies params cells obstacles;
          w1 = accel_w1 params;
          w2 = accel_w2 params
      in cells\<lparr>
           speeds1 := upd_range (\<lambda>k. if ap k then speeds1 cells ! k + w1 else speeds1 cells ! k)
                        (speeds1 cells) lo (lo + m),
           speeds5 := upd_range (\<lambda>k. if ap k then speeds5 cells ! k + w2 else speeds5 cells ! k)
                        (speeds5 cells) lo (lo + m),
           speeds8 := upd_range (\<lambda>k. if ap k then speeds8 cells ! k + w2 else speeds8 cells ! k)
                        (speeds8 cells) lo (lo + m),
           speeds3 := upd_range (\<lambda>k. if ap k then speeds3 cells ! k - w1 else speeds3 cells ! k)
                        (speeds3 cells) lo (lo + m),
           speeds6 := upd_range (\<lambda>k. if ap k then speeds6 cells ! k - w2 else speeds6 cells ! k)
                        (speeds6 cells) lo (lo + m),
           speeds7 := upd_range (\<lambda>k. if ap k then speeds7 cells ! k - w2 else speeds7 cells ! k)
                        (speeds7 cells) lo (lo + m)\<rparr>)"

text \<open>
  The pass of \<^verbatim>\<open>timestep\<close>. \<open>pull_at params cells jj ii\<close> is \<open>pull\<close> with the neighbour rows
  that the outer loop computes for row \<open>jj\<close>, and \<open>pulled params cells k\<close> the nine values
  it reads for the cell of index \<open>k\<close>. \<open>scratch_cell\<close> is what the pass leaves in the
  scratch grid at a cell, \<open>cell_u\<close> what the cell adds to \<^verbatim>\<open>tot_u\<close> and \<open>free_count\<close> the
  value of \<^verbatim>\<open>tot_cells\<close>; \<open>stream_upto\<close> is the state of the loops after the cells of
  index below \<open>m\<close>.
\<close>

definition pull_at :: "t_param \<Rightarrow> t_speed \<Rightarrow> int \<Rightarrow> int \<Rightarrow> speeds9 option" where
  "pull_at params cells jj ii =
     pull params cells jj (if jj = 0 then jj + ny params - 1 else jj - 1) ((jj + 1) mod ny params) ii"

definition pulled :: "t_param \<Rightarrow> t_speed \<Rightarrow> nat \<Rightarrow> speeds9" where
  "pulled params cells k =
     (let ii = int k mod nx params;
          jj = int k div nx params;
          y_s = (if jj = 0 then jj + ny params - 1 else jj - 1);
          y_n = (jj + 1) mod ny params;
          x_e = (ii + 1) mod nx params;
          x_w = (if ii = 0 then ii + nx params - 1 else ii - 1)
      in (speeds0 cells ! nat (ii + jj * nx params),
          speeds1 cells ! nat (x_w + jj * nx params),
          speeds2 cells ! nat (ii + y_s * nx params),
          speeds3 cells ! nat (x_e + jj * nx params),
          speeds4 cells ! nat (ii + y_n * nx params),
          speeds5 cells ! nat (x_w + y_s * nx params),
          speeds6 cells ! nat (x_e + y_s * nx params),
          speeds7 cells ! nat (x_e + y_n * nx params),
          speeds8 cells ! nat (x_w + y_n * nx params)))"

definition scratch_cell :: "t_param \<Rightarrow> t_speed \<Rightarrow> t_speed \<Rightarrow> int list \<Rightarrow> nat \<Rightarrow> speeds9" where
  "scratch_cell params cells tmp_cells obstacles k =
     (case pulled params cells k of (s0, s1, s2, s3, s4, s5, s6, s7, s8) \<Rightarrow>
        if obstacles ! k \<noteq> 0 then (speeds0 tmp_cells ! k, s3, s4, s1, s2, s7, s8, s5, s6)
        else fst (relax (omega params) (s0, s1, s2, s3, s4, s5, s6, s7, s8)))"

definition cell_u :: "t_param \<Rightarrow> t_speed \<Rightarrow> int list \<Rightarrow> nat \<Rightarrow> cfloat" where
  "cell_u params cells obstacles k =
     (if obstacles ! k = 0 then snd (relax (omega params) (pulled params cells k)) else 0)"

definition free_count :: "int list \<Rightarrow> nat \<Rightarrow> int" where
  "free_count obstacles m = (\<Sum>k<m. if obstacles ! k = 0 then 1 else 0)"

definition stream_upto ::
  "t_param \<Rightarrow> t_speed \<Rightarrow> t_speed \<Rightarrow> int list \<Rightarrow> int \<Rightarrow> t_speed \<times> cfloat \<times> int" where
  "stream_upto params cells tmp_cells obstacles m =
     (let new = scratch_cell params cells tmp_cells obstacles
      in (tmp_cells\<lparr>
            speeds0 := upd_range (\<lambda>k. sel0 (new k)) (speeds0 tmp_cells) 0 m,
            speeds1 := upd_range (\<lambda>k. sel1 (new k)) (speeds1 tmp_cells) 0 m,
            speeds2 := upd_range (\<lambda>k. sel2 (new k)) (speeds2 tmp_cells) 0 m,
            speeds3 := upd_range (\<lambda>k. sel3 (new k)) (speeds3 tmp_cells) 0 m,
            speeds4 := upd_range (\<lambda>k. sel4 (new k)) (speeds4 tmp_cells) 0 m,
            speeds5 := upd_range (\<lambda>k. sel5 (new k)) (speeds5 tmp_cells) 0 m,
            speeds6 := upd_range (\<lambda>k. sel6 (new k)) (speeds6 tmp_cells) 0 m,
            speeds7 := upd_range (\<lambda>k. sel7 (new k)) (speeds7 tmp_cells) 0 m,
            speeds8 := upd_range (\<lambda>k. sel8 (new k)) (speeds8 tmp_cells) 0 m\<rparr>,
          (\<Sum>k<nat m. cell_u params cells obstacles k),
          free_count obstacles (nat m)))"

text \<open>
  The states of the loops of \<^verbatim>\<open>av_velocity\<close>, \<^verbatim>\<open>total_density\<close> and \<^verbatim>\<open>initialise\<close> after the
  cells of index below \<open>m\<close>.
\<close>

definition av_upto :: "t_speed \<Rightarrow> int list \<Rightarrow> int \<Rightarrow> int \<times> cfloat" where
  "av_upto cells obstacles m =
     (free_count obstacles (nat m),
      (\<Sum>k<nat m. if obstacles ! k = 0 then cell_speed (cell_of cells k) else 0))"

definition density_upto :: "t_speed \<Rightarrow> int \<Rightarrow> cfloat" where
  "density_upto cells m = (\<Sum>k<nat m. cell_density (cell_of cells k))"

definition initialise_upto ::
  "t_param \<Rightarrow> t_speed \<Rightarrow> int list \<Rightarrow> int \<Rightarrow> t_speed \<times> int list" where
  "initialise_upto params cells obstacles m =
     (let w0 = density params * Finite 4 / Finite 9;
          w1 = density params / Finite 9;
          w2 = density params / Finite 36
      in (cells\<lparr>
            speeds0 := upd_range (\<lambda>k. w0) (speeds0 cells) 0 m,
            speeds1 := upd_range (\<lambda>k. w1) (speeds1 cells) 0 m,
            speeds2 := upd_range (\<lambda>k. w1) (speeds2 cells) 0 m,
            speeds3 := upd_range (\<lambda>k. w1) (speeds3 cells) 0 m,
            speeds4 := upd_range (\<lambda>k. w1) (speeds4 cells) 0 m,
            speeds5 := upd_range (\<lambda>k. w2) (speeds5 cells) 0 m,
            speeds6 := upd_range (\<lambda>k. w2) (speeds6 cells) 0 m,
            speeds7 := upd_range (\<lambda>k. w2) (speeds7 cells) 0 m,
            speeds8 := upd_range (\<lambda>k. w2) (speeds8 cells) 0 m\<rparr>,
          upd_range (\<lambda>k. 0) obstacles 0 m))"

text \<open>
  The value returned by the pass of \<^verbatim>\<open>timestep\<close> together with the value that \<^verbatim>\<open>av_velocity\<close>
  returns on the scratch grid the pass has written.
\<close>

definition diagnostic_pair ::
  "t_param \<Rightarrow> t_speed \<Rightarrow> t_speed \<Rightarrow> int list \<Rightarrow> (cfloat \<times> cfloat) option" where
  "diagnostic_pair params cells tmp_cells obstacles =
     do {
       (tmp', av) \<leftarrow> stream_collide params cells tmp_cells obstacles;
       av' \<leftarrow> av_velocity params tmp' obstacles;
       Some (av, av')
     }"

subsection \<open>The formulas of the specification\<close>

text \<open>
  The periodic wrap rule in the words of the specification: at coordinate 0 the previous
  neighbour is \<open>size - 1\<close>, at coordinate \<open>size - 1\<close> the next neighbour is 0.
\<close>

definition wrap_prev :: "int \<Rightarrow> int \<Rightarrow> int" where
  "wrap_prev n c = (if c = 0 then n - 1 else c - 1)"

definition wrap_next :: "int \<Rightarrow> int \<Rightarrow> int" where
  "wrap_next n c = (if c = n - 1 then 0 else c + 1)"

text \<open>
  The BGK relaxation in the words of the specification, on real numbers, for comparison
  with \<open>relax\<close>: the weights \<open>w i\<close>, the lattice directions \<open>e i\<close> (0 rest, 1 east,
  2 north, 3 west, 4 south, 5 north-east, 6 north-west, 7 south-west, 8 south-east), the
  local density and velocity of nine values \<open>f 0\<close> .. \<open>f 8\<close>, the equilibrium
  \<open>f_eq i = w i * local_density * (1 + 3 (e i \<cdot> u) + 4.5 (e i \<cdot> u)\<^sup>2 - 1.5 (u_x\<^sup>2 + u_y\<^sup>2))\<close>
  and the relaxed value \<open>f_new i = f i + omega * (f_eq i - f i)\<close>.
\<close>

definition lattice_weight :: "nat \<Rightarrow> real" where
  "lattice_weight i = (if i = 0 then 4 / 9 else if i \<le> 4 then 1 / 9 else 1 / 36)"

definition lattice_ex :: "nat \<Rightarrow> real" where
  "lattice_ex i = (if i \<in> {1, 5, 8} then 1 else if i \<in> {3, 6, 7} then - 1 else 0)"

definition lattice_ey :: "nat \<Rightarrow> real" where
  "lattice_ey i = (if i \<in> {2, 5, 6} then 1 else if i \<in> {4, 7, 8} then - 1 else 0)"

definition local_density_of :: "(nat \<Rightarrow> real) \<Rightarrow> real" where
  "local_density_of f = (\<Sum>j<9. f j)"

definition u_x_of :: "(nat \<Rightarrow> real) \<Rightarrow> real" where
  "u_x_of f = (f 1 + f 5 + f 8 - f 3 - f 6 - f 7) / local_density_of f"

definition u_y_of :: "(nat \<Rightarrow> real) \<Rightarrow> real" where
  "u_y_of f = (f 2 + f 5 + f 6 - f 4 - f 7 - f 8) / local_density_of f"

definition f_eq :: "(nat \<Rightarrow> real) \<Rightarrow> nat \<Rightarrow> real" where
  "f_eq f i =
     (let eu = lattice_ex i * u_x_of f + lattice_ey i * u_y_of f
      in lattice_weight i * local_density_of f
           * (1 + 3 * eu + 4.5 * eu\<^sup>2 - 1.5 * ((u_x_of f)\<^sup>2 + (u_y_of f)\<^sup>2)))"

definition f_new :: "real \<Rightarrow> (nat \<Rightarrow> real) \<Rightarrow> nat \<Rightarrow> real" where
  "f_new om f i = f i + om * (f_eq f i - f i)"

subsection \<open>Example grids\<close>

text \<open>
  A 2 by 2 grid with one obstacle, at cell \<open>(1, 1)\<close>, and \<open>w1 = 4\<close>, \<open>w2 = 1\<close> in
  \<^verbatim>\<open>accelerate_flow\<close>; the same parameters with \<open>accel = 0\<close>; a grid of zeros; and a 3 by 3
  grid whose every value is different.
\<close>

definition ex_params :: t_param where
  "ex_params = \<lparr>nx = 2, ny = 2, maxIters = 1, reynolds_dim = 1,
                  density = Finite 9, accel = Finite 4, omega = Finite 1\<rparr>"

definition ex_still_params :: t_param where
  "ex_still_params = \<lparr>nx = 2, ny = 2, maxIters = 1, reynolds_dim = 1,
                        density = Finite 9, accel = Finite 0, omega = Finite 1\<rparr>"

definition ex_cells :: t_speed where
  "ex_cells = \<lparr>speeds0 = map Finite [16, 16, 16, 16],
                speeds1 = map Finite [4, 4, 4, 4],
                speeds2 = map Finite [4, 4, 4, 4],
                speeds3 = map Finite [5, 4, 5, 5],
                speeds4 = map Finite [4, 4, 4, 4],
                speeds5 = map Finite [1, 1, 1, 1],
                speeds6 = map Finite [2, 2, 2, 2],
                speeds7 = map Finite [2, 2, 2, 2],
                speeds8 = map Finite [1, 1, 1, 1]\<rparr>"

definition ex_tmp_cells :: t_speed where
  "ex_tmp_cells = \<lparr>speeds0 = map Finite [7, 7, 7, 7],
                    speeds1 = map Finite [0, 0, 0, 0],
                    speeds2 = map Finite [0, 0, 0, 0],
                    speeds3 = map Finite [0, 0, 0, 0],
                    speeds4 = map Finite [0, 0, 0, 0],
                    speeds5 = map Finite [0, 0, 0, 0],
                    speeds6 = map Finite [0, 0, 0, 0],
                    speeds7 = map Finite [0, 0, 0, 0],
                    speeds8 = map Finite [0, 0, 0, 0]\<rparr>"

definition ex_zero_cells :: t_speed where
  "ex_zero_cells = \<lparr>speeds0 = map Finite [0, 0, 0, 0],
                     speeds1 = map Finite [0, 0, 0, 0],
                     speeds2 = map Finite [0, 0, 0, 0],
                     speeds3 = map Finite [0, 0, 0, 0],
                     speeds4 = map Finite [0, 0, 0, 0],
                     speeds5 = map Finite [0, 0, 0, 0],
                     speeds6 = map Finite [0, 0, 0, 0],
                     speeds7 = map Finite [0, 0, 0, 0],
                     speeds8 = map Finite [0, 0, 0, 0]\<rparr>"

definition ex_obstacles :: "int list" where
  "ex_obstacles = [0, 0, 0, 1]"

definition ex3_params :: t_param where
  "ex3_params = \<lparr>nx = 3, ny = 3, maxIters = 1, reynolds_dim = 1,
                   density = Finite 1, accel = Finite 0, omega = Finite 1\<rparr>"

definition ex3_cells :: t_speed where
  "ex3_cells = \<lparr>speeds0 = map Finite [0, 1, 2, 3, 4, 5, 6, 7, 8],
                 speeds1 = map Finite [10, 11, 12, 13, 14, 15, 16, 17, 18],
                 speeds2 = map Finite [20, 21, 22, 23, 24, 25, 26, 27, 28],
                 speeds3 = map Finite [30, 31, 32, 33, 34, 35, 36, 37, 38],
                 speeds4 = map Finite [40, 41, 42, 43, 44, 45, 46, 47, 48],
                 speeds5 = map Finite [50, 51, 52, 53, 54, 55, 56, 57, 58],
                 speeds6 = map Finite [60, 61, 62, 63, 64, 65, 66, 67, 68],
                 speeds7 = map Finite [70, 71, 72, 73, 74, 75, 76, 77, 78],
                 speeds8 = map Finite [80, 81, 82, 83, 84, 85, 86, 87, 88]\<rparr>"

text \<open>
  Parameters in single precision: the density is the \<^verbatim>\<open>float\<close> nearest to 0.3 and the
  relaxation parameter the one nearest to 1.85. \<open>ex32_grid n\<close> is the 2 by 2 grid whose
  every cell holds \<open>n / 2\<^sup>2\<^sup>6\<close> in direction 0, \<open>n / 2\<^sup>2\<^sup>8\<close> in the directions 1 to 4 and
  \<open>n / 2\<^sup>3\<^sup>0\<close> in the directions 5 to 8.
\<close>

definition ex32_params :: t_param where
  "ex32_params = \<lparr>nx = 2, ny = 2, maxIters = 1, reynolds_dim = 1,
                    density = Finite (5033165 / 16777216), accel = Finite 0,
                    omega = Finite (15518925 / 8388608)\<rparr>"

definition ex32_grid :: "real \<Rightarrow> t_speed" where
  "ex32_grid n =
     \<lparr>speeds0 = map Finite [n / 67108864, n / 67108864, n / 67108864, n / 67108864],
      speeds1 = map Finite [n / 268435456, n / 268435456, n / 268435456, n / 268435456],
      speeds2 = map Finite [n / 268435456, n / 268435456, n / 268435456, n / 268435456],
      speeds3 = map Finite [n / 268435456, n / 268435456, n / 268435456, n / 268435456],
      speeds4 = map Finite [n / 268435456, n / 268435456, n / 268435456, n / 268435456],
      speeds5 = map Finite [n / 1073741824, n / 1073741824, n / 1073741824, n / 1073741824],
      speeds6 = map Finite [n / 1073741824, n / 1073741824, n / 1073741824, n / 1073741824],
      speeds7 = map Finite [n / 1073741824, n / 1073741824, n / 1073741824, n / 1073741824],
      speeds8 = map Finite [n / 1073741824, n / 1073741824, n / 1073741824, n / 1073741824]\<rparr>"

section \<open>The loops compute their closed forms\<close>

subsection \<open>Arrays and loops\<close>

lemma length_upd_range [simp]: "length (upd_range f old lo hi) = length old"
  by (simp add: upd_range_def)

lemma nth_upd_range:
  "k < length old \<Longrightarrow>
   upd_range f old lo hi ! k = (if lo \<le> int k \<and> int k < hi then f k else old ! k)"
  by (simp add: upd_range_def)

lemma upd_range_empty: "hi \<le> lo \<Longrightarrow> upd_range f old lo hi = old"
  by (rule nth_equalityI) (auto simp: nth_upd_range)

lemma upd_range_step:
  assumes "0 \<le> hi" "lo \<le> hi"
  shows "(upd_range f old lo hi)[nat hi := f (nat hi)] = upd_range f old lo (hi + 1)"
proof (rule nth_equalityI)
  fix k
  assume "k < length ((upd_range f old lo hi)[nat hi := f (nat hi)])"
  then have k: "k < length old" by simp
  show "(upd_range f old lo hi)[nat hi := f (nat hi)] ! k = upd_range f old lo (hi + 1) ! k"
  proof (cases "k = nat hi")
    case True
    with k assms show ?thesis by (simp add: nth_upd_range)
  next
    case False
    with assms have "int k < hi + 1 \<longleftrightarrow> int k < hi" by linarith
    with k False show ?thesis by (simp add: nth_upd_range)
  qed
qed simp

lemma upd_range_write:
  "0 \<le> hi \<Longrightarrow> lo \<le> hi \<Longrightarrow> v = f (nat hi) \<Longrightarrow>
   (upd_range f old lo hi)[nat hi := v] = upd_range f old lo (hi + 1)"
  by (simp add: upd_range_step)

lemma upd_range_skip:
  assumes "0 \<le> hi" "lo \<le> hi" "f (nat hi) = old ! nat hi"
  shows "upd_range f old lo (hi + 1) = upd_range f old lo hi"
proof (rule nth_equalityI)
  fix k
  assume "k < length (upd_range f old lo (hi + 1))"
  then have k: "k < length old" by simp
  show "upd_range f old lo (hi + 1) ! k = upd_range f old lo hi ! k"
  proof (cases "k = nat hi")
    case True
    with k assms show ?thesis by (simp add: nth_upd_range)
  next
    case False
    with assms have "int k < hi + 1 \<longleftrightarrow> int k < hi" by linarith
    with k False show ?thesis by (simp add: nth_upd_range)
  qed
qed simp

lemma rd_Some: "0 \<le> i \<Longrightarrow> i < int (length a) \<Longrightarrow> rd a i = Some (a ! nat i)"
  by (simp add: rd_def)

lemma wr_Some: "0 \<le> i \<Longrightarrow> i < int (length a) \<Longrightarrow> wr a i v = Some (a[nat i := v])"
  by (simp add: wr_def)

lemma for_each_append:
  "for_each (xs @ ys) body s = (case for_each xs body s of None \<Rightarrow> None | Some s' \<Rightarrow> for_each ys body s')"
  by (induction xs arbitrary: s) (auto split: option.splits)

lemma for_each_upto_rule:
  assumes "P 0 s"
    and "\<And>i t. 0 \<le> i \<Longrightarrow> i < n \<Longrightarrow> P i t \<Longrightarrow> \<exists>t'. body i t = Some t' \<and> P (i + 1) t'"
    and "0 \<le> n"
  shows "\<exists>t. for_each [0..n - 1] body s = Some t \<and> P n t"
proof -
  have "\<exists>t. for_each [0..int m - 1] body s = Some t \<and> P (int m) t" if "int m \<le> n" for m
    using that
  proof (induction m)
    case 0
    then show ?case using assms(1) by simp
  next
    case (Suc m)
    then obtain t where t: "for_each [0..int m - 1] body s = Some t" "P (int m) t"
      by auto
    from assms(2)[of "int m" t] Suc.prems t(2)
    obtain t' where t': "body (int m) t = Some t'" "P (int m + 1) t'"
      by auto
    have "[0..int (Suc m) - 1] = [0..int m - 1] @ [int m]"
      using upto_rec2[of 0 "int m"] by simp
    then show ?case
      using t t' by (simp add: for_each_append add.commute)
  qed
  from this[of "nat n"] assms(3) show ?thesis by simp
qed

lemma for_each_upto_empty: "n \<le> 0 \<Longrightarrow> for_each [0..n - 1] body s = Some s"
  by simp

subsection \<open>The loop of accelerate\_flow\<close>

lemma cell_index_bounds:
  fixes x y n m :: int
  assumes "0 \<le> x" "x < n" "0 \<le> y" "y < m"
  shows "0 \<le> x + y * n" and "x + y * n < n * m"
proof -
  from assms show "0 \<le> x + y * n" by simp
  have "(y + 1) * n \<le> m * n"
    using assms by (intro mult_right_mono) auto
  with assms show "x + y * n < n * m"
    by (simp add: algebra_simps)
qed

lemma accelerate_upto_0: "accelerate_upto params cells obstacles 0 = cells"
  by (simp add: accelerate_upto_def Let_def upd_range_empty)

lemma accelerate_cell_eq:
  assumes "0 \<le> ii + jj * nx params"
    and "ii + jj * nx params < int (length obstacles)"
    and "ii + jj * nx params < int (length (speeds1 s))"
    and "ii + jj * nx params < int (length (speeds3 s))"
    and "ii + jj * nx params < int (length (speeds5 s))"
    and "ii + jj * nx params < int (length (speeds6 s))"
    and "ii + jj * nx params < int (length (speeds7 s))"
    and "ii + jj * nx params < int (length (speeds8 s))"
  shows "accelerate_cell params obstacles w1 w2 jj ii s =
     Some (let k = nat (ii + jj * nx params) in
           if obstacles ! k = 0 \<and> fgt (speeds3 s ! k - w1) (Finite 0) \<and>
              fgt (speeds6 s ! k - w2) (Finite 0) \<and> fgt (speeds7 s ! k - w2) (Finite 0)
           then s\<lparr>speeds1 := (speeds1 s)[k := speeds1 s ! k + w1],
                  speeds5 := (speeds5 s)[k := speeds5 s ! k + w2],
                  speeds8 := (speeds8 s)[k := speeds8 s ! k + w2],
                  speeds3 := (speeds3 s)[k := speeds3 s ! k - w1],
                  speeds6 := (speeds6 s)[k := speeds6 s ! k - w2],
                  speeds7 := (speeds7 s)[k := speeds7 s ! k - w2]\<rparr>
           else s)"
  using assms by (simp add: accelerate_cell_def Let_def rd_Some wr_Some)

lemma accelerate_cell_step:
  assumes al: "allocated params cells" and ob: "sized params obstacles"
    and i: "0 \<le> i" "i < nx params" and ny: "2 \<le> ny params"
  shows "accelerate_cell params obstacles (accel_w1 params) (accel_w2 params) (ny params - 2) i
           (accelerate_upto params cells obstacles i)
         = Some (accelerate_upto params cells obstacles (i + 1))"
proof -
  define lo where "lo = (ny params - 2) * nx params"
  define hi where "hi = i + (ny params - 2) * nx params"
  define s where "s = accelerate_upto params cells obstacles i"
  define ap where "ap = accel_applies params cells obstacles"
  have kb: "0 \<le> hi" "hi < nx params * ny params"
    unfolding hi_def using cell_index_bounds[of i "nx params" "ny params - 2" "ny params"] i ny
    by auto
  have lo: "lo \<le> hi" "lo + i = hi" "lo + (i + 1) = hi + 1"
    using i ny by (auto simp: lo_def hi_def)
  have len: "hi < int (length obstacles)" "hi < int (length (speeds1 cells))"
    "hi < int (length (speeds3 cells))" "hi < int (length (speeds5 cells))"
    "hi < int (length (speeds6 cells))" "hi < int (length (speeds7 cells))"
    "hi < int (length (speeds8 cells))"
    using al ob kb by (auto simp: allocated_def sized_def)
  have nk: "nat hi < length (speeds1 cells)" "nat hi < length (speeds3 cells)"
    "nat hi < length (speeds5 cells)" "nat hi < length (speeds6 cells)"
    "nat hi < length (speeds7 cells)" "nat hi < length (speeds8 cells)"
    using len kb by auto
  have s_fields:
    "speeds1 s = upd_range (\<lambda>k. if ap k then speeds1 cells ! k + accel_w1 params else speeds1 cells ! k) (speeds1 cells) lo hi"
    "speeds5 s = upd_range (\<lambda>k. if ap k then speeds5 cells ! k + accel_w2 params else speeds5 cells ! k) (speeds5 cells) lo hi"
    "speeds8 s = upd_range (\<lambda>k. if ap k then speeds8 cells ! k + accel_w2 params else speeds8 cells ! k) (speeds8 cells) lo hi"
    "speeds3 s = upd_range (\<lambda>k. if ap k then speeds3 cells ! k - accel_w1 params else speeds3 cells ! k) (speeds3 cells) lo hi"
    "speeds6 s = upd_range (\<lambda>k. if ap k then speeds6 cells ! k - accel_w2 params else speeds6 cells ! k) (speeds6 cells) lo hi"
    "speeds7 s = upd_range (\<lambda>k. if ap k then speeds7 cells ! k - accel_w2 params else speeds7 cells ! k) (speeds7 cells) lo hi"
    "speeds0 s = speeds0 cells" "speeds2 s = speeds2 cells" "speeds4 s = speeds4 cells"
    "t_speed.more s = t_speed.more cells"
    by (simp_all add: s_def accelerate_upto_def Let_def lo flip: lo_def ap_def)
  have s_at: "speeds1 s ! nat hi = speeds1 cells ! nat hi" "speeds5 s ! nat hi = speeds5 cells ! nat hi"
    "speeds8 s ! nat hi = speeds8 cells ! nat hi" "speeds3 s ! nat hi = speeds3 cells ! nat hi"
    "speeds6 s ! nat hi = speeds6 cells ! nat hi" "speeds7 s ! nat hi = speeds7 cells ! nat hi"
    using nk kb by (simp_all add: s_fields nth_upd_range)
  have guard: "(obstacles ! nat hi = 0 \<and> fgt (speeds3 s ! nat hi - accel_w1 params) (Finite 0) \<and>
      fgt (speeds6 s ! nat hi - accel_w2 params) (Finite 0) \<and>
      fgt (speeds7 s ! nat hi - accel_w2 params) (Finite 0)) = ap (nat hi)"
    by (simp add: s_at ap_def accel_applies_def)
  have cell: "accelerate_cell params obstacles (accel_w1 params) (accel_w2 params) (ny params - 2) i s =
     Some (if ap (nat hi)
           then s\<lparr>speeds1 := (speeds1 s)[nat hi := speeds1 cells ! nat hi + accel_w1 params],
                  speeds5 := (speeds5 s)[nat hi := speeds5 cells ! nat hi + accel_w2 params],
                  speeds8 := (speeds8 s)[nat hi := speeds8 cells ! nat hi + accel_w2 params],
                  speeds3 := (speeds3 s)[nat hi := speeds3 cells ! nat hi - accel_w1 params],
                  speeds6 := (speeds6 s)[nat hi := speeds6 cells ! nat hi - accel_w2 params],
                  speeds7 := (speeds7 s)[nat hi := speeds7 cells ! nat hi - accel_w2 params]\<rparr>
           else s)"
  proof -
    have slen: "hi < int (length (speeds1 s))" "hi < int (length (speeds3 s))"
      "hi < int (length (speeds5 s))" "hi < int (length (speeds6 s))"
      "hi < int (length (speeds7 s))" "hi < int (length (speeds8 s))"
      using len by (simp_all add: s_fields)
    show ?thesis
      using accelerate_cell_eq[of i "ny params - 2" params obstacles s "accel_w1 params" "accel_w2 params"]
        kb len slen guard
      by (simp add: Let_def s_at flip: hi_def)
  qed
  have next_fields:
    "speeds1 (accelerate_upto params cells obstacles (i + 1)) = upd_range (\<lambda>k. if ap k then speeds1 cells ! k + accel_w1 params else speeds1 cells ! k) (speeds1 cells) lo (hi + 1)"
    "speeds5 (accelerate_upto params cells obstacles (i + 1)) = upd_range (\<lambda>k. if ap k then speeds5 cells ! k + accel_w2 params else speeds5 cells ! k) (speeds5 cells) lo (hi + 1)"
    "speeds8 (accelerate_upto params cells obstacles (i + 1)) = upd_range (\<lambda>k. if ap k then speeds8 cells ! k + accel_w2 params else speeds8 cells ! k) (speeds8 cells) lo (hi + 1)"
    "speeds3 (accelerate_upto params cells obstacles (i + 1)) = upd_range (\<lambda>k. if ap k then speeds3 cells ! k - accel_w1 params else speeds3 cells ! k) (speeds3 cells) lo (hi + 1)"
    "speeds6 (accelerate_upto params cells obstacles (i + 1)) = upd_range (\<lambda>k. if ap k then speeds6 cells ! k - accel_w2 params else speeds6 cells ! k) (speeds6 cells) lo (hi + 1)"
    "speeds7 (accelerate_upto params cells obstacles (i + 1)) = upd_range (\<lambda>k. if ap k then speeds7 cells ! k - accel_w2 params else speeds7 cells ! k) (speeds7 cells) lo (hi + 1)"
    "speeds0 (accelerate_upto params cells obstacles (i + 1)) = speeds0 cells"
    "speeds2 (accelerate_upto params cells obstacles (i + 1)) = speeds2 cells"
    "speeds4 (accelerate_upto params cells obstacles (i + 1)) = speeds4 cells"
    "t_speed.more (accelerate_upto params cells obstacles (i + 1)) = t_speed.more cells"
    by (simp_all add: accelerate_upto_def Let_def lo flip: lo_def ap_def)
  show ?thesis
  proof (cases "ap (nat hi)")
    case True
    have "s\<lparr>speeds1 := (speeds1 s)[nat hi := speeds1 cells ! nat hi + accel_w1 params],
                  speeds5 := (speeds5 s)[nat hi := speeds5 cells ! nat hi + accel_w2 params],
                  speeds8 := (speeds8 s)[nat hi := speeds8 cells ! nat hi + accel_w2 params],
                  speeds3 := (speeds3 s)[nat hi := speeds3 cells ! nat hi - accel_w1 params],
                  speeds6 := (speeds6 s)[nat hi := speeds6 cells ! nat hi - accel_w2 params],
                  speeds7 := (speeds7 s)[nat hi := speeds7 cells ! nat hi - accel_w2 params]\<rparr>
          = accelerate_upto params cells obstacles (i + 1)"
      using True
      by (intro t_speed.equality)
         (simp_all add: next_fields s_fields upd_range_write[OF kb(1) lo(1)])
    with True cell show ?thesis by (simp add: s_def)
  next
    case False
    have "s = accelerate_upto params cells obstacles (i + 1)"
      using False
      by (intro t_speed.equality)
         (simp_all add: next_fields s_fields upd_range_skip[OF kb(1) lo(1)])
    with False cell show ?thesis by (simp add: s_def)
  qed
qed

lemma accelerate_flow_eq:
  assumes "allocated params cells" "sized params obstacles" "0 \<le> nx params" "2 \<le> ny params"
  shows "accelerate_flow params cells obstacles = Some (accelerate_upto params cells obstacles (nx params))"
proof -
  have "\<exists>t. for_each [0..nx params - 1]
          (accelerate_cell params obstacles (accel_w1 params) (accel_w2 params) (ny params - 2)) cells = Some t
        \<and> t = accelerate_upto params cells obstacles (nx params)"
    using assms
    by (intro for_each_upto_rule[where P = "\<lambda>i t. t = accelerate_upto params cells obstacles i"])
       (simp_all add: accelerate_upto_0 accelerate_cell_step)
  then show ?thesis
    by (simp add: accelerate_flow_def Let_def accel_w1_def accel_w2_def)
qed

text \<open>
  With fewer than two rows the row \<open>ny - 2\<close> does not exist: the first read of the loop is
  at a negative index.
\<close>

lemma accelerate_flow_single_row:
  assumes "0 < nx params" "ny params < 2"
  shows "accelerate_flow params cells obstacles = None"
proof -
  have "(ny params - 2) * nx params < 0"
    using assms by (simp add: mult_less_0_iff)
  then have "accelerate_cell params obstacles w1 w2 (ny params - 2) 0 cells = None" for w1 w2
    by (simp add: accelerate_cell_def rd_def)
  moreover have "[0..nx params - 1] = 0 # [1..nx params - 1]"
    using assms(1) by (simp add: upto_rec1)
  ultimately show ?thesis
    by (simp add: accelerate_flow_def Let_def)
qed

subsection \<open>The reads of timestep\<close>

lemma cell_index_decode:
  fixes x y n :: int
  assumes "0 \<le> x" "x < n"
  shows "(x + y * n) mod n = x" and "(x + y * n) div n = y"
  using assms by simp_all

lemma wrap_bounds:
  fixes x n :: int
  assumes "0 \<le> x" "x < n"
  shows "0 \<le> (x + 1) mod n" "(x + 1) mod n < n"
    "0 \<le> (if x = 0 then x + n - 1 else x - 1)" "(if x = 0 then x + n - 1 else x - 1) < n"
  using assms by auto

lemma pull_eq:
  assumes al: "allocated params cells"
    and i: "0 \<le> ii" "ii < nx params" and j: "0 \<le> jj" "jj < ny params"
  shows "pull_at params cells jj ii = Some (pulled params cells (nat (ii + jj * nx params)))"
proof -
  define y_s where "y_s = (if jj = 0 then jj + ny params - 1 else jj - 1)"
  define y_n where "y_n = (jj + 1) mod ny params"
  define x_e where "x_e = (ii + 1) mod nx params"
  define x_w where "x_w = (if ii = 0 then ii + nx params - 1 else ii - 1)"
  have x: "0 \<le> x_e" "x_e < nx params" "0 \<le> x_w" "x_w < nx params"
    using wrap_bounds[OF i] by (simp_all add: x_e_def x_w_def)
  have y: "0 \<le> y_n" "y_n < ny params" "0 \<le> y_s" "y_s < ny params"
    using wrap_bounds[OF j] by (simp_all add: y_n_def y_s_def)
  note b = cell_index_bounds[of _ "nx params" _ "ny params"]
  have len: "\<And>a. sized params a \<Longrightarrow> int (length a) = nx params * ny params"
    by (simp add: sized_def)
  have dec: "int (nat (ii + jj * nx params)) mod nx params = ii"
    "int (nat (ii + jj * nx params)) div nx params = jj"
    using b[OF i j] i by simp_all
  have "pull params cells jj y_s y_n ii =
     Some (speeds0 cells ! nat (ii + jj * nx params),
          speeds1 cells ! nat (x_w + jj * nx params),
          speeds2 cells ! nat (ii + y_s * nx params),
          speeds3 cells ! nat (x_e + jj * nx params),
          speeds4 cells ! nat (ii + y_n * nx params),
          speeds5 cells ! nat (x_w + y_s * nx params),
          speeds6 cells ! nat (x_e + y_s * nx params),
          speeds7 cells ! nat (x_e + y_n * nx params),
          speeds8 cells ! nat (x_w + y_n * nx params))"
    using al b[OF i j] b[OF x(3,4) j] b[OF i y(3,4)] b[OF x(1,2) j] b[OF i y(1,2)]
      b[OF x(3,4) y(3,4)] b[OF x(1,2) y(3,4)] b[OF x(1,2) y(1,2)] b[OF x(3,4) y(1,2)]
    unfolding pull_def Let_def allocated_def
    by (simp add: rd_Some len flip: x_e_def x_w_def)
  then show ?thesis
    unfolding pull_at_def pulled_def Let_def dec
    by (simp flip: y_s_def y_n_def x_e_def x_w_def)
qed

subsection \<open>One cell of the pass\<close>

lemma free_count_Suc:
  "free_count obstacles (Suc m) = free_count obstacles m + (if obstacles ! m = 0 then 1 else 0)"
  by (simp add: free_count_def)

lemma stream_upto_0: "stream_upto params cells tmp_cells obstacles 0 = (tmp_cells, Finite 0, 0)"
  by (simp add: stream_upto_def Let_def upd_range_empty free_count_def zero_cfloat_def)

lemma timestep_cell_step:
  assumes al: "allocated params cells" and tl: "allocated params tmp_cells"
    and ob: "sized params obstacles"
    and i: "0 \<le> ii" "ii < nx params" and j: "0 \<le> jj" "jj < ny params"
  shows "timestep_cell params cells obstacles jj
           (if jj = 0 then jj + ny params - 1 else jj - 1) ((jj + 1) mod ny params) ii
           (stream_upto params cells tmp_cells obstacles (ii + jj * nx params))
         = Some (stream_upto params cells tmp_cells obstacles (ii + jj * nx params + 1))"
proof -
  define m where "m = ii + jj * nx params"
  define new where "new = scratch_cell params cells tmp_cells obstacles"
  define T where "T = fst (stream_upto params cells tmp_cells obstacles m)"
  define U where "U = (\<Sum>k<nat m. cell_u params cells obstacles k)"
  define N where "N = free_count obstacles (nat m)"
  have mb: "0 \<le> m" "m < nx params * ny params"
    unfolding m_def using cell_index_bounds[OF i j] by auto
  have m': "jj * nx params + ii = m" by (simp add: m_def)
  have st: "stream_upto params cells tmp_cells obstacles m = (T, U, N)"
    by (simp add: T_def U_def N_def stream_upto_def Let_def)
  have T_fields:
    "speeds0 T = upd_range (\<lambda>k. sel0 (new k)) (speeds0 tmp_cells) 0 m"
    "speeds1 T = upd_range (\<lambda>k. sel1 (new k)) (speeds1 tmp_cells) 0 m"
    "speeds2 T = upd_range (\<lambda>k. sel2 (new k)) (speeds2 tmp_cells) 0 m"
    "speeds3 T = upd_range (\<lambda>k. sel3 (new k)) (speeds3 tmp_cells) 0 m"
    "speeds4 T = upd_range (\<lambda>k. sel4 (new k)) (speeds4 tmp_cells) 0 m"
    "speeds5 T = upd_range (\<lambda>k. sel5 (new k)) (speeds5 tmp_cells) 0 m"
    "speeds6 T = upd_range (\<lambda>k. sel6 (new k)) (speeds6 tmp_cells) 0 m"
    "speeds7 T = upd_range (\<lambda>k. sel7 (new k)) (speeds7 tmp_cells) 0 m"
    "speeds8 T = upd_range (\<lambda>k. sel8 (new k)) (speeds8 tmp_cells) 0 m"
    "t_speed.more T = t_speed.more tmp_cells"
    by (simp_all add: T_def stream_upto_def Let_def new_def)
  have Tlen: "m < int (length (speeds0 T))" "m < int (length (speeds1 T))"
    "m < int (length (speeds2 T))" "m < int (length (speeds3 T))"
    "m < int (length (speeds4 T))" "m < int (length (speeds5 T))"
    "m < int (length (speeds6 T))" "m < int (length (speeds7 T))"
    "m < int (length (speeds8 T))"
    using tl mb by (simp_all add: T_fields allocated_def sized_def)
  have oblen: "m < int (length obstacles)"
    using ob mb by (simp add: sized_def)
  obtain s0 s1 s2 s3 s4 s5 s6 s7 s8 where
    p: "pulled params cells (nat m) = (s0, s1, s2, s3, s4, s5, s6, s7, s8)"
    by (cases "pulled params cells (nat m)") auto
  have pull: "pull params cells jj (if jj = 0 then jj + ny params - 1 else jj - 1)
                ((jj + 1) mod ny params) ii = Some (s0, s1, s2, s3, s4, s5, s6, s7, s8)"
    using pull_eq[OF al i j] by (simp add: pull_at_def p flip: m_def)
  obtain r0 r1 r2 r3 r4 r5 r6 r7 r8 u where
    r: "relax (omega params) (s0, s1, s2, s3, s4, s5, s6, s7, s8) =
          ((r0, r1, r2, r3, r4, r5, r6, r7, r8), u)"
    by (cases "relax (omega params) (s0, s1, s2, s3, s4, s5, s6, s7, s8)") auto
  have next_st: "stream_upto params cells tmp_cells obstacles (m + 1) =
      (tmp_cells\<lparr>
            speeds0 := upd_range (\<lambda>k. sel0 (new k)) (speeds0 tmp_cells) 0 (m + 1),
            speeds1 := upd_range (\<lambda>k. sel1 (new k)) (speeds1 tmp_cells) 0 (m + 1),
            speeds2 := upd_range (\<lambda>k. sel2 (new k)) (speeds2 tmp_cells) 0 (m + 1),
            speeds3 := upd_range (\<lambda>k. sel3 (new k)) (speeds3 tmp_cells) 0 (m + 1),
            speeds4 := upd_range (\<lambda>k. sel4 (new k)) (speeds4 tmp_cells) 0 (m + 1),
            speeds5 := upd_range (\<lambda>k. sel5 (new k)) (speeds5 tmp_cells) 0 (m + 1),
            speeds6 := upd_range (\<lambda>k. sel6 (new k)) (speeds6 tmp_cells) 0 (m + 1),
            speeds7 := upd_range (\<lambda>k. sel7 (new k)) (speeds7 tmp_cells) 0 (m + 1),
            speeds8 := upd_range (\<lambda>k. sel8 (new k)) (speeds8 tmp_cells) 0 (m + 1)\<rparr>,
       U + cell_u params cells obstacles (nat m),
       N + (if obstacles ! nat m = 0 then 1 else 0))"
    using mb
    by (simp add: stream_upto_def Let_def new_def U_def N_def nat_add_distrib free_count_Suc)
  note wr = upd_range_write[OF mb(1) mb(1)]
  show ?thesis
  proof (cases "obstacles ! nat m = 0")
    case True
    have new_m: "new (nat m) = (r0, r1, r2, r3, r4, r5, r6, r7, r8)"
      using True by (simp add: new_def scratch_cell_def p r)
    have u_m: "cell_u params cells obstacles (nat m) = u"
      using True by (simp add: cell_u_def p r)
    have "timestep_cell params cells obstacles jj
           (if jj = 0 then jj + ny params - 1 else jj - 1) ((jj + 1) mod ny params) ii (T, U, N)
        = Some (T\<lparr>speeds0 := (speeds0 T)[nat m := r0], speeds1 := (speeds1 T)[nat m := r1],
                  speeds2 := (speeds2 T)[nat m := r2], speeds3 := (speeds3 T)[nat m := r3],
                  speeds4 := (speeds4 T)[nat m := r4], speeds5 := (speeds5 T)[nat m := r5],
                  speeds6 := (speeds6 T)[nat m := r6], speeds7 := (speeds7 T)[nat m := r7],
                  speeds8 := (speeds8 T)[nat m := r8]\<rparr>, U + u, N + 1)"
      using True mb oblen Tlen
      by (simp add: timestep_cell_def pull m' r rd_Some wr_Some flip: m_def)
    also have "T\<lparr>speeds0 := (speeds0 T)[nat m := r0], speeds1 := (speeds1 T)[nat m := r1],
                  speeds2 := (speeds2 T)[nat m := r2], speeds3 := (speeds3 T)[nat m := r3],
                  speeds4 := (speeds4 T)[nat m := r4], speeds5 := (speeds5 T)[nat m := r5],
                  speeds6 := (speeds6 T)[nat m := r6], speeds7 := (speeds7 T)[nat m := r7],
                  speeds8 := (speeds8 T)[nat m := r8]\<rparr> =
              fst (stream_upto params cells tmp_cells obstacles (m + 1))"
      by (intro t_speed.equality) (simp_all add: next_st T_fields wr new_m)
    finally show ?thesis
      using True by (simp add: st next_st u_m flip: m_def)
  next
    case False
    have new_m: "new (nat m) = (speeds0 tmp_cells ! nat m, s3, s4, s1, s2, s7, s8, s5, s6)"
      using False by (simp add: new_def scratch_cell_def p)
    have u_m: "cell_u params cells obstacles (nat m) = 0"
      using False by (simp add: cell_u_def)
    have "timestep_cell params cells obstacles jj
           (if jj = 0 then jj + ny params - 1 else jj - 1) ((jj + 1) mod ny params) ii (T, U, N)
        = Some (T\<lparr>speeds1 := (speeds1 T)[nat m := s3],
                  speeds2 := (speeds2 T)[nat m := s4], speeds3 := (speeds3 T)[nat m := s1],
                  speeds4 := (speeds4 T)[nat m := s2], speeds5 := (speeds5 T)[nat m := s7],
                  speeds6 := (speeds6 T)[nat m := s8], speeds7 := (speeds7 T)[nat m := s5],
                  speeds8 := (speeds8 T)[nat m := s6]\<rparr>, U, N)"
      using False mb oblen Tlen
      by (simp add: timestep_cell_def pull m' rd_Some wr_Some flip: m_def)
    also have "T\<lparr>speeds1 := (speeds1 T)[nat m := s3],
                  speeds2 := (speeds2 T)[nat m := s4], speeds3 := (speeds3 T)[nat m := s1],
                  speeds4 := (speeds4 T)[nat m := s2], speeds5 := (speeds5 T)[nat m := s7],
                  speeds6 := (speeds6 T)[nat m := s8], speeds7 := (speeds7 T)[nat m := s5],
                  speeds8 := (speeds8 T)[nat m := s6]\<rparr> =
              fst (stream_upto params cells tmp_cells obstacles (m + 1))"
      by (intro t_speed.equality)
         (simp_all add: next_st T_fields wr new_m upd_range_skip[OF mb(1) mb(1)])
    finally show ?thesis
      using False by (simp add: st next_st u_m flip: m_def)
  qed
qed

subsection \<open>The nested loops\<close>

lemma grid_loop_rule:
  assumes step: "\<And>ii jj. 0 \<le> ii \<Longrightarrow> ii < n \<Longrightarrow> 0 \<le> jj \<Longrightarrow> jj < m \<Longrightarrow>
      body jj ii (S (ii + jj * n)) = Some (S (ii + jj * n + 1))"
    and n: "0 \<le> n" and m: "0 \<le> m"
  shows "for_each [0..m - 1] (\<lambda>jj. for_each [0..n - 1] (body jj)) (S 0) = Some (S (n * m))"
proof -
  have row: "\<exists>t. for_each [0..n - 1] (body jj) (S (jj * n)) = Some t \<and> t = S ((jj + 1) * n)"
    if jj: "0 \<le> jj" "jj < m" for jj
  proof -
    have "\<exists>t. for_each [0..n - 1] (body jj) (S (jj * n)) = Some t \<and> t = S (n + jj * n)"
    proof (rule for_each_upto_rule[where P = "\<lambda>i t. t = S (i + jj * n)"])
      show "S (jj * n) = S (0 + jj * n)" by simp
      show "0 \<le> n" by (rule n)
      fix i t
      assume "0 \<le> i" "i < n" "t = S (i + jj * n)"
      moreover have "i + 1 + jj * n = i + jj * n + 1" by simp
      ultimately show "\<exists>t'. body jj i t = Some t' \<and> t' = S (i + 1 + jj * n)"
        using step[of i jj] jj by metis
    qed
    then show ?thesis by (simp add: algebra_simps)
  qed
  have "\<exists>t. for_each [0..m - 1] (\<lambda>jj. for_each [0..n - 1] (body jj)) (S 0) = Some t
          \<and> t = S (m * n)"
  proof (rule for_each_upto_rule[where P = "\<lambda>j t. t = S (j * n)"])
    show "S 0 = S (0 * n)" by simp
    show "0 \<le> m" by (rule m)
    fix j t
    assume "0 \<le> j" "j < m" "t = S (j * n)"
    then show "\<exists>t'. for_each [0..n - 1] (body j) t = Some t' \<and> t' = S ((j + 1) * n)"
      using row[of j] by simp
  qed
  then show ?thesis by (simp add: mult.commute)
qed

lemma stream_collide_eq:
  assumes "allocated params cells" "allocated params tmp_cells" "sized params obstacles"
    and "0 \<le> nx params" "0 \<le> ny params"
  shows "stream_collide params cells tmp_cells obstacles =
     (case stream_upto params cells tmp_cells obstacles (nx params * ny params) of
        (t, tot_u, tot_cells) \<Rightarrow> Some (t, tot_u / float_of_int tot_cells))"
proof -
  have "for_each [0..ny params - 1]
          (\<lambda>jj. for_each [0..nx params - 1]
             (timestep_cell params cells obstacles jj
                (if jj = 0 then jj + ny params - 1 else jj - 1) ((jj + 1) mod ny params)))
          (stream_upto params cells tmp_cells obstacles 0)
        = Some (stream_upto params cells tmp_cells obstacles (nx params * ny params))"
    using assms by (intro grid_loop_rule timestep_cell_step)
  then show ?thesis
    by (simp add: stream_collide_def Let_def stream_upto_0 split: prod.splits)
qed

subsection \<open>The loops of the diagnostics and of initialise\<close>

lemma allocated_lengths:
  assumes "allocated params cells" "0 \<le> m" "m < nx params * ny params"
  shows "m < int (length (speeds0 cells))" "m < int (length (speeds1 cells))"
    "m < int (length (speeds2 cells))" "m < int (length (speeds3 cells))"
    "m < int (length (speeds4 cells))" "m < int (length (speeds5 cells))"
    "m < int (length (speeds6 cells))" "m < int (length (speeds7 cells))"
    "m < int (length (speeds8 cells))"
  using assms by (simp_all add: allocated_def sized_def)

lemma av_velocity_cell_step:
  assumes al: "allocated params cells" and ob: "sized params obstacles"
    and i: "0 \<le> ii" "ii < nx params" and j: "0 \<le> jj" "jj < ny params"
  shows "av_velocity_cell params cells obstacles jj ii (av_upto cells obstacles (ii + jj * nx params))
         = Some (av_upto cells obstacles (ii + jj * nx params + 1))"
proof -
  define m where "m = ii + jj * nx params"
  have mb: "0 \<le> m" "m < nx params * ny params"
    unfolding m_def using cell_index_bounds[OF i j] by auto
  have oblen: "m < int (length obstacles)"
    using ob mb by (simp add: sized_def)
  show ?thesis
    using mb oblen allocated_lengths[OF al mb]
    by (simp add: av_velocity_cell_def av_upto_def rd_Some nat_add_distrib free_count_Suc
        cell_speed_def cell_of_def Let_def flip: m_def)
qed

lemma av_velocity_eq:
  assumes "allocated params cells" "sized params obstacles" "0 \<le> nx params" "0 \<le> ny params"
  shows "av_velocity params cells obstacles =
     (case av_upto cells obstacles (nx params * ny params) of
        (tot_cells, tot_u) \<Rightarrow> Some (tot_u / float_of_int tot_cells))"
proof -
  have "for_each [0..ny params - 1]
          (\<lambda>jj. for_each [0..nx params - 1] (av_velocity_cell params cells obstacles jj))
          (av_upto cells obstacles 0)
        = Some (av_upto cells obstacles (nx params * ny params))"
    using assms by (intro grid_loop_rule av_velocity_cell_step)
  then show ?thesis
    by (simp add: av_velocity_def av_upto_def free_count_def zero_cfloat_def split: prod.splits)
qed

lemma total_density_cell_step:
  assumes al: "allocated params cells"
    and i: "0 \<le> ii" "ii < nx params" and j: "0 \<le> jj" "jj < ny params"
  shows "total_density_cell params cells jj ii (density_upto cells (ii + jj * nx params))
         = Some (density_upto cells (ii + jj * nx params + 1))"
proof -
  define m where "m = ii + jj * nx params"
  have mb: "0 \<le> m" "m < nx params * ny params"
    unfolding m_def using cell_index_bounds[OF i j] by auto
  show ?thesis
    using mb allocated_lengths[OF al mb]
    by (simp add: total_density_cell_def density_upto_def rd_Some nat_add_distrib
        cell_density_def cell_of_def add.assoc flip: m_def)
qed

lemma total_density_eq:
  assumes "allocated params cells" "0 \<le> nx params" "0 \<le> ny params"
  shows "total_density params cells = Some (density_upto cells (nx params * ny params))"
proof -
  have "for_each [0..ny params - 1]
          (\<lambda>jj. for_each [0..nx params - 1] (total_density_cell params cells jj))
          (density_upto cells 0)
        = Some (density_upto cells (nx params * ny params))"
    using assms by (intro grid_loop_rule total_density_cell_step)
  then show ?thesis
    by (simp add: total_density_def density_upto_def zero_cfloat_def)
qed

lemma initialise_cell_step:
  assumes al: "allocated params cells" and ob: "sized params obstacles"
    and i: "0 \<le> ii" "ii < nx params" and j: "0 \<le> jj" "jj < ny params"
  shows "initialise_cell params (density params * Finite 4 / Finite 9) (density params / Finite 9)
           (density params / Finite 36) jj ii
           (initialise_upto params cells obstacles (ii + jj * nx params))
         = Some (initialise_upto params cells obstacles (ii + jj * nx params + 1))"
proof -
  define m where "m = ii + jj * nx params"
  have mb: "0 \<le> m" "m < nx params * ny params"
    unfolding m_def using cell_index_bounds[OF i j] by auto
  have oblen: "m < int (length obstacles)"
    using ob mb by (simp add: sized_def)
  show ?thesis
    using mb oblen allocated_lengths[OF al mb]
    by (simp add: initialise_cell_def initialise_upto_def Let_def wr_Some
        upd_range_write[OF mb(1) mb(1)] flip: m_def)
qed

lemma initialise_eq:
  assumes "allocated params cells" "sized params obstacles" "0 \<le> nx params" "0 \<le> ny params"
  shows "initialise params cells obstacles =
           Some (initialise_upto params cells obstacles (nx params * ny params))"
proof -
  have "for_each [0..ny params - 1]
          (\<lambda>jj. for_each [0..nx params - 1]
             (initialise_cell params (density params * Finite 4 / Finite 9)
                (density params / Finite 9) (density params / Finite 36) jj))
          (initialise_upto params cells obstacles 0)
        = Some (initialise_upto params cells obstacles (nx params * ny params))"
    using assms by (intro grid_loop_rule initialise_cell_step)
  then show ?thesis
    by (simp add: initialise_def initialise_upto_def Let_def upd_range_empty)
qed

subsection \<open>Cells after accelerate\_flow\<close>

lemma allocated_accelerate_upto:
  "allocated params cells \<Longrightarrow> allocated params (accelerate_upto params cells obstacles m)"
  by (simp add: allocated_def sized_def accelerate_upto_def Let_def)

lemma cell_of_accelerate_upto:
  assumes al: "allocated params cells" and k: "int k < nx params * ny params"
  shows "cell_of (accelerate_upto params cells obstacles m) k =
     (if (ny params - 2) * nx params \<le> int k \<and> int k < (ny params - 2) * nx params + m \<and>
         accel_applies params cells obstacles k
      then (speeds0 cells ! k, speeds1 cells ! k + accel_w1 params, speeds2 cells ! k,
            speeds3 cells ! k - accel_w1 params, speeds4 cells ! k,
            speeds5 cells ! k + accel_w2 params, speeds6 cells ! k - accel_w2 params,
            speeds7 cells ! k - accel_w2 params, speeds8 cells ! k + accel_w2 params)
      else cell_of cells k)"
proof -
  have "k < length (speeds1 cells)" "k < length (speeds3 cells)" "k < length (speeds5 cells)"
    "k < length (speeds6 cells)" "k < length (speeds7 cells)" "k < length (speeds8 cells)"
    using allocated_lengths[OF al _ k] by simp_all
  then show ?thesis
    by (simp add: cell_of_def accelerate_upto_def Let_def nth_upd_range)
qed

lemma row_window:
  fixes x y n r :: int
  assumes "0 \<le> x" "x < n"
  shows "r * n \<le> x + y * n \<and> x + y * n < r * n + n \<longleftrightarrow> y = r"
proof
  assume a: "r * n \<le> x + y * n \<and> x + y * n < r * n + n"
  have "(x + y * n) div n = y" using assms by simp
  moreover have "(x + y * n) div n = r"
  proof -
    have "x + y * n = (x + y * n - r * n) + r * n" by simp
    moreover have "0 \<le> x + y * n - r * n" "x + y * n - r * n < n" using a by auto
    ultimately show ?thesis
      by (metis cell_index_decode(2))
  qed
  ultimately show "y = r" by simp
next
  assume "y = r"
  with assms show "r * n \<le> x + y * n \<and> x + y * n < r * n + n" by simp
qed

lemma cell_density_accelerated:
  assumes "fgt (s3 - w1) (Finite 0)" "fgt (s6 - w2) (Finite 0)" "fgt (s7 - w2) (Finite 0)"
  shows "cell_density (s0, s1 + w1, s2, s3 - w1, s4, s5 + w2, s6 - w2, s7 - w2, s8 + w2) =
         cell_density (s0, s1, s2, s3, s4, s5, s6, s7, s8)"
proof -
  obtain a3 b1 where 1: "s3 = Finite a3" "w1 = Finite b1"
    using assms(1) by (cases s3; cases w1) auto
  obtain a6 b2 where 2: "s6 = Finite a6" "w2 = Finite b2"
    using assms(2) by (cases s6; cases w2) auto
  obtain a7 where 3: "s7 = Finite a7"
    using assms(3) by (cases s7) auto
  show ?thesis
    unfolding cell_density_def 1 2 3
    by (cases s0; cases s1; cases s2; cases s4; cases s5; cases s8) simp_all
qed

lemma density_accelerate_upto:
  assumes al: "allocated params cells" and k: "int k < nx params * ny params"
  shows "cell_density (cell_of (accelerate_upto params cells obstacles m) k) =
         cell_density (cell_of cells k)"
  using cell_density_accelerated[of "speeds3 cells ! k" "accel_w1 params" "speeds6 cells ! k"
      "accel_w2 params" "speeds7 cells ! k"]
  by (simp add: cell_of_accelerate_upto[OF al k] accel_applies_def) (simp add: cell_of_def)

subsection \<open>Cells after the pass\<close>

lemma allocated_stream_upto:
  "allocated params tmp_cells \<Longrightarrow>
   allocated params (fst (stream_upto params cells tmp_cells obstacles m))"
  by (simp add: allocated_def sized_def stream_upto_def Let_def)

lemma cell_of_stream_upto:
  assumes tl: "allocated params tmp_cells" and k: "int k < nx params * ny params"
  shows "cell_of (fst (stream_upto params cells tmp_cells obstacles m)) k =
     (if int k < m then scratch_cell params cells tmp_cells obstacles k else cell_of tmp_cells k)"
proof -
  have "k < length (speeds0 tmp_cells)" "k < length (speeds1 tmp_cells)"
    "k < length (speeds2 tmp_cells)" "k < length (speeds3 tmp_cells)"
    "k < length (speeds4 tmp_cells)" "k < length (speeds5 tmp_cells)"
    "k < length (speeds6 tmp_cells)" "k < length (speeds7 tmp_cells)"
    "k < length (speeds8 tmp_cells)"
    using allocated_lengths[OF tl _ k] by simp_all
  moreover obtain r0 r1 r2 r3 r4 r5 r6 r7 r8 where
    "scratch_cell params cells tmp_cells obstacles k = (r0, r1, r2, r3, r4, r5, r6, r7, r8)"
    by (cases "scratch_cell params cells tmp_cells obstacles k") auto
  ultimately show ?thesis
    by (simp add: cell_of_def stream_upto_def Let_def nth_upd_range)
qed

lemma stream_collide_cells:
  assumes "allocated params cells" "allocated params tmp_cells" "sized params obstacles"
    and "0 \<le> nx params" "0 \<le> ny params"
  shows "\<exists>tmp' av. stream_collide params cells tmp_cells obstacles = Some (tmp', av) \<and>
     allocated params tmp' \<and>
     t_speed.more tmp' = t_speed.more tmp_cells \<and>
     (\<forall>k. int k < nx params * ny params \<longrightarrow>
        cell_of tmp' k = scratch_cell params cells tmp_cells obstacles k) \<and>
     av = (\<Sum>k<nat (nx params * ny params). cell_u params cells obstacles k)
            / float_of_int (free_count obstacles (nat (nx params * ny params)))"
proof -
  let ?n = "nx params * ny params"
  let ?t = "fst (stream_upto params cells tmp_cells obstacles ?n)"
  have "stream_collide params cells tmp_cells obstacles =
      Some (?t, (\<Sum>k<nat ?n. cell_u params cells obstacles k)
                  / float_of_int (free_count obstacles (nat ?n)))"
    using stream_collide_eq[OF assms] by (simp add: stream_upto_def Let_def)
  moreover have "allocated params ?t"
    using assms(2) by (rule allocated_stream_upto)
  moreover have "t_speed.more ?t = t_speed.more tmp_cells"
    by (simp add: stream_upto_def Let_def)
  moreover have "\<forall>k. int k < ?n \<longrightarrow> cell_of ?t k = scratch_cell params cells tmp_cells obstacles k"
    using cell_of_stream_upto[OF assms(2)] by simp
  ultimately show ?thesis by blast
qed

lemma stream_collide_at:
  assumes "allocated params cells" "allocated params tmp_cells" "sized params obstacles"
    and "0 \<le> x" "x < nx params" "0 \<le> y" "y < ny params"
  shows "\<exists>s tmp' av. pull_at params cells y x = Some s \<and>
     s = pulled params cells (nat (x + y * nx params)) \<and>
     stream_collide params cells tmp_cells obstacles = Some (tmp', av) \<and>
     cell_of tmp' (nat (x + y * nx params)) =
       scratch_cell params cells tmp_cells obstacles (nat (x + y * nx params))"
proof -
  have b: "0 \<le> x + y * nx params" "x + y * nx params < nx params * ny params"
    using cell_index_bounds[OF assms(4-7)] by auto
  from stream_collide_cells[OF assms(1-3)] assms(4-7)
  obtain tmp' av where "stream_collide params cells tmp_cells obstacles = Some (tmp', av)"
    "\<forall>k. int k < nx params * ny params \<longrightarrow>
        cell_of tmp' k = scratch_cell params cells tmp_cells obstacles k"
    by fastforce
  then show ?thesis
    using pull_eq[OF assms(1,4-7)] b by simp
qed

subsection \<open>The relaxation on numbers\<close>

lemma sum_lessThan_9:
  fixes f :: "nat \<Rightarrow> 'a::comm_monoid_add"
  shows "(\<Sum>j<9. f j) = f 0 + f 1 + f 2 + f 3 + f 4 + f 5 + f 6 + f 7 + f 8"
  by (simp add: eval_nat_numeral)

lemma relax_code:
  fixes s0 s1 s2 s3 s4 s5 s6 s7 s8 om :: real
  defines "ld \<equiv> s0 + s1 + s2 + s3 + s4 + s5 + s6 + s7 + s8"
  defines "ux \<equiv> (s1 + s5 + s8 - (s3 + s6 + s7)) / ld"
  defines "uy \<equiv> (s2 + s5 + s6 - (s4 + s7 + s8)) / ld"
  assumes "ld \<noteq> 0"
  shows "relax (Finite om)
           (Finite s0, Finite s1, Finite s2, Finite s3, Finite s4, Finite s5, Finite s6,
            Finite s7, Finite s8) =
    ((Finite (s0 + om * (4 / 9 * ld * (1 - (ux * ux + uy * uy) * (3 / 2)) - s0)),
      Finite (s1 + om * (1 / 9 * ld * (1 + ux * 3 + ux * ux * (9 / 2) - (ux * ux + uy * uy) * (3 / 2)) - s1)),
      Finite (s2 + om * (1 / 9 * ld * (1 + uy * 3 + uy * uy * (9 / 2) - (ux * ux + uy * uy) * (3 / 2)) - s2)),
      Finite (s3 + om * (1 / 9 * ld * (1 + - ux * 3 + ux * ux * (9 / 2) - (ux * ux + uy * uy) * (3 / 2)) - s3)),
      Finite (s4 + om * (1 / 9 * ld * (1 + - uy * 3 + uy * uy * (9 / 2) - (ux * ux + uy * uy) * (3 / 2)) - s4)),
      Finite (s5 + om * (1 / 36 * ld * (1 + (ux + uy) * 3 + (ux + uy) * (ux + uy) * (9 / 2) - (ux * ux + uy * uy) * (3 / 2)) - s5)),
      Finite (s6 + om * (1 / 36 * ld * (1 + (- ux + uy) * 3 + (- ux + uy) * (- ux + uy) * (9 / 2) - (ux * ux + uy * uy) * (3 / 2)) - s6)),
      Finite (s7 + om * (1 / 36 * ld * (1 + (- ux - uy) * 3 + (- ux - uy) * (- ux - uy) * (9 / 2) - (ux * ux + uy * uy) * (3 / 2)) - s7)),
      Finite (s8 + om * (1 / 36 * ld * (1 + (ux - uy) * 3 + (ux - uy) * (ux - uy) * (9 / 2) - (ux * ux + uy * uy) * (3 / 2)) - s8))),
     Finite (sqrt (ux * ux + uy * uy)))"
proof -
  have ld: "Finite s0 + Finite s1 + Finite s2 + Finite s3 + Finite s4 + Finite s5 + Finite s6
      + Finite s7 + Finite s8 = Finite ld"
    by (simp add: ld_def)
  have ux: "(Finite s1 + Finite s5 + Finite s8 - (Finite s3 + Finite s6 + Finite s7)) / Finite ld
      = Finite ux"
    using assms(4) by (simp add: ux_def)
  have uy: "(Finite s2 + Finite s5 + Finite s6 - (Finite s4 + Finite s7 + Finite s8)) / Finite ld
      = Finite uy"
    using assms(4) by (simp add: uy_def)
  have c: "Finite 0.5 * Finite 3 = Finite (3 / 2)" "Finite (3 / 2) * Finite 3 = Finite (9 / 2)"
    "Finite 4 / Finite 9 = Finite (4 / 9)" "Finite 1 / Finite 9 = Finite (1 / 9)"
    "Finite 1 / Finite 36 = Finite (1 / 36)"
    by simp_all
  have nn: "\<not> ux * ux + uy * uy < 0"
    by (simp add: not_less)
  show ?thesis
    unfolding relax_def Let_def prod.case ld ux uy c
    by (simp only: plus_cfloat.simps minus_cfloat.simps times_cfloat.simps uminus_cfloat.simps
        sqrtf.simps nn if_False)
qed

lemma relax_finite:
  assumes "local_density_of f \<noteq> 0"
  shows "relax (Finite om)
           (Finite (f 0), Finite (f 1), Finite (f 2), Finite (f 3), Finite (f 4), Finite (f 5),
            Finite (f 6), Finite (f 7), Finite (f 8)) =
    ((Finite (f_new om f 0), Finite (f_new om f 1), Finite (f_new om f 2),
      Finite (f_new om f 3), Finite (f_new om f 4), Finite (f_new om f 5),
      Finite (f_new om f 6), Finite (f_new om f 7), Finite (f_new om f 8)),
     Finite (sqrt ((u_x_of f)\<^sup>2 + (u_y_of f)\<^sup>2)))"
proof -
  define ld where "ld = f 0 + f 1 + f 2 + f 3 + f 4 + f 5 + f 6 + f 7 + f 8"
  define ux where "ux = (f 1 + f 5 + f 8 - (f 3 + f 6 + f 7)) / ld"
  define uy where "uy = (f 2 + f 5 + f 6 - (f 4 + f 7 + f 8)) / ld"
  have ld: "local_density_of f = ld"
    by (simp add: local_density_of_def ld_def sum_lessThan_9)
  have ux: "u_x_of f = ux"
    by (simp add: u_x_of_def ux_def ld algebra_simps)
  have uy: "u_y_of f = uy"
    by (simp add: u_y_of_def uy_def ld algebra_simps)
  have n: "f_new om f 0 = f 0 + om * (4 / 9 * ld * (1 - (ux * ux + uy * uy) * (3 / 2)) - f 0)"
    "f_new om f 1 = f 1 + om * (1 / 9 * ld * (1 + ux * 3 + ux * ux * (9 / 2) - (ux * ux + uy * uy) * (3 / 2)) - f 1)"
    "f_new om f 2 = f 2 + om * (1 / 9 * ld * (1 + uy * 3 + uy * uy * (9 / 2) - (ux * ux + uy * uy) * (3 / 2)) - f 2)"
    "f_new om f 3 = f 3 + om * (1 / 9 * ld * (1 + - ux * 3 + ux * ux * (9 / 2) - (ux * ux + uy * uy) * (3 / 2)) - f 3)"
    "f_new om f 4 = f 4 + om * (1 / 9 * ld * (1 + - uy * 3 + uy * uy * (9 / 2) - (ux * ux + uy * uy) * (3 / 2)) - f 4)"
    "f_new om f 5 = f 5 + om * (1 / 36 * ld * (1 + (ux + uy) * 3 + (ux + uy) * (ux + uy) * (9 / 2) - (ux * ux + uy * uy) * (3 / 2)) - f 5)"
    "f_new om f 6 = f 6 + om * (1 / 36 * ld * (1 + (- ux + uy) * 3 + (- ux + uy) * (- ux + uy) * (9 / 2) - (ux * ux + uy * uy) * (3 / 2)) - f 6)"
    "f_new om f 7 = f 7 + om * (1 / 36 * ld * (1 + (- ux - uy) * 3 + (- ux - uy) * (- ux - uy) * (9 / 2) - (ux * ux + uy * uy) * (3 / 2)) - f 7)"
    "f_new om f 8 = f 8 + om * (1 / 36 * ld * (1 + (ux - uy) * 3 + (ux - uy) * (ux - uy) * (9 / 2) - (ux * ux + uy * uy) * (3 / 2)) - f 8)"
    unfolding f_new_def f_eq_def ld ux uy Let_def lattice_weight_def lattice_ex_def lattice_ey_def
    by (simp_all add: power2_eq_square algebra_simps)
  have sq: "(u_x_of f)\<^sup>2 + (u_y_of f)\<^sup>2 = ux * ux + uy * uy"
    by (simp add: ux uy power2_eq_square)
  have "ld \<noteq> 0" using assms ld by simp
  then show ?thesis
    unfolding n sq ux_def uy_def ld_def by (rule relax_code)
qed

subsection \<open>The relaxation keeps density and momentum\<close>

lemma f_new_expand:
  "f_new om f 0 = f 0 + om * (4 / 9 * local_density_of f
      * (1 - 3 / 2 * ((u_x_of f)\<^sup>2 + (u_y_of f)\<^sup>2)) - f 0)"
  "f_new om f 1 = f 1 + om * (1 / 9 * local_density_of f
      * (1 + 3 * u_x_of f + 9 / 2 * (u_x_of f)\<^sup>2 - 3 / 2 * ((u_x_of f)\<^sup>2 + (u_y_of f)\<^sup>2)) - f 1)"
  "f_new om f 2 = f 2 + om * (1 / 9 * local_density_of f
      * (1 + 3 * u_y_of f + 9 / 2 * (u_y_of f)\<^sup>2 - 3 / 2 * ((u_x_of f)\<^sup>2 + (u_y_of f)\<^sup>2)) - f 2)"
  "f_new om f 3 = f 3 + om * (1 / 9 * local_density_of f
      * (1 - 3 * u_x_of f + 9 / 2 * (u_x_of f)\<^sup>2 - 3 / 2 * ((u_x_of f)\<^sup>2 + (u_y_of f)\<^sup>2)) - f 3)"
  "f_new om f 4 = f 4 + om * (1 / 9 * local_density_of f
      * (1 - 3 * u_y_of f + 9 / 2 * (u_y_of f)\<^sup>2 - 3 / 2 * ((u_x_of f)\<^sup>2 + (u_y_of f)\<^sup>2)) - f 4)"
  "f_new om f 5 = f 5 + om * (1 / 36 * local_density_of f
      * (1 + 3 * (u_x_of f + u_y_of f) + 9 / 2 * (u_x_of f + u_y_of f)\<^sup>2
           - 3 / 2 * ((u_x_of f)\<^sup>2 + (u_y_of f)\<^sup>2)) - f 5)"
  "f_new om f 6 = f 6 + om * (1 / 36 * local_density_of f
      * (1 + 3 * (u_y_of f - u_x_of f) + 9 / 2 * (u_y_of f - u_x_of f)\<^sup>2
           - 3 / 2 * ((u_x_of f)\<^sup>2 + (u_y_of f)\<^sup>2)) - f 6)"
  "f_new om f 7 = f 7 + om * (1 / 36 * local_density_of f
      * (1 - 3 * (u_x_of f + u_y_of f) + 9 / 2 * (u_x_of f + u_y_of f)\<^sup>2
           - 3 / 2 * ((u_x_of f)\<^sup>2 + (u_y_of f)\<^sup>2)) - f 7)"
  "f_new om f 8 = f 8 + om * (1 / 36 * local_density_of f
      * (1 + 3 * (u_x_of f - u_y_of f) + 9 / 2 * (u_x_of f - u_y_of f)\<^sup>2
           - 3 / 2 * ((u_x_of f)\<^sup>2 + (u_y_of f)\<^sup>2)) - f 8)"
  unfolding f_new_def f_eq_def Let_def lattice_weight_def lattice_ex_def lattice_ey_def
  by (simp_all add: power2_eq_square algebra_simps)

lemma f_new_density: "local_density_of (f_new om f) = local_density_of f"
proof -
  have "local_density_of (f_new om f) =
      f_new om f 0 + f_new om f 1 + f_new om f 2 + f_new om f 3 + f_new om f 4 +
      f_new om f 5 + f_new om f 6 + f_new om f 7 + f_new om f 8"
    by (simp only: local_density_of_def sum_lessThan_9)
  also have "\<dots> = (f 0 + f 1 + f 2 + f 3 + f 4 + f 5 + f 6 + f 7 + f 8)
      + om * (local_density_of f - (f 0 + f 1 + f 2 + f 3 + f 4 + f 5 + f 6 + f 7 + f 8))"
    unfolding f_new_expand by (simp add: power2_eq_square algebra_simps)
  also have "f 0 + f 1 + f 2 + f 3 + f 4 + f 5 + f 6 + f 7 + f 8 = local_density_of f"
    by (simp only: local_density_of_def sum_lessThan_9)
  finally show ?thesis by simp
qed

lemma f_new_momentum_x:
  assumes "local_density_of f \<noteq> 0"
  shows "f_new om f 1 + f_new om f 5 + f_new om f 8 - f_new om f 3 - f_new om f 6 - f_new om f 7
       = f 1 + f 5 + f 8 - f 3 - f 6 - f 7"
proof -
  have "f_new om f 1 + f_new om f 5 + f_new om f 8 - f_new om f 3 - f_new om f 6 - f_new om f 7
      = (f 1 + f 5 + f 8 - f 3 - f 6 - f 7)
        + om * (local_density_of f * u_x_of f - (f 1 + f 5 + f 8 - f 3 - f 6 - f 7))"
    unfolding f_new_expand by (simp add: power2_eq_square algebra_simps)
  moreover have "local_density_of f * u_x_of f = f 1 + f 5 + f 8 - f 3 - f 6 - f 7"
    using assms by (simp add: u_x_of_def)
  ultimately show ?thesis by simp
qed

lemma f_new_momentum_y:
  assumes "local_density_of f \<noteq> 0"
  shows "f_new om f 2 + f_new om f 5 + f_new om f 6 - f_new om f 4 - f_new om f 7 - f_new om f 8
       = f 2 + f 5 + f 6 - f 4 - f 7 - f 8"
proof -
  have "f_new om f 2 + f_new om f 5 + f_new om f 6 - f_new om f 4 - f_new om f 7 - f_new om f 8
      = (f 2 + f 5 + f 6 - f 4 - f 7 - f 8)
        + om * (local_density_of f * u_y_of f - (f 2 + f 5 + f 6 - f 4 - f 7 - f 8))"
    unfolding f_new_expand by (simp add: power2_eq_square algebra_simps)
  moreover have "local_density_of f * u_y_of f = f 2 + f 5 + f 6 - f 4 - f 7 - f 8"
    using assms by (simp add: u_y_of_def)
  ultimately show ?thesis by simp
qed

lemma f_new_velocity:
  assumes "local_density_of f \<noteq> 0"
  shows "u_x_of (f_new om f) = u_x_of f" "u_y_of (f_new om f) = u_y_of f"
  unfolding u_x_of_def u_y_of_def f_new_density
    f_new_momentum_x[OF assms] f_new_momentum_y[OF assms] by (rule refl)+

subsection \<open>Cells whose values are numbers\<close>

lemma cell_density_finite:
  "cell_density (Finite (g 0), Finite (g 1), Finite (g 2), Finite (g 3), Finite (g 4),
                 Finite (g 5), Finite (g 6), Finite (g 7), Finite (g 8)) =
   Finite (local_density_of g)"
  by (simp only: cell_density_def prod.case plus_cfloat.simps local_density_of_def sum_lessThan_9)

lemma cell_density_FiniteD:
  assumes "cell_density s = Finite d"
  obtains g where "s = (Finite (g 0), Finite (g 1), Finite (g 2), Finite (g 3), Finite (g 4),
                        Finite (g 5), Finite (g 6), Finite (g 7), Finite (g 8))"
    and "local_density_of g = d"
proof -
  obtain s0 s1 s2 s3 s4 s5 s6 s7 s8 where s: "s = (s0, s1, s2, s3, s4, s5, s6, s7, s8)"
    by (cases s) auto
  have fin: "\<exists>r. a = Finite r" "\<exists>r. b = Finite r" if "a + b = Finite c" for a b c
    using that by (cases a; cases b; simp)+
  from assms have 8: "s0 + s1 + s2 + s3 + s4 + s5 + s6 + s7 + s8 = Finite d"
    by (simp add: s cell_density_def)
  from fin[OF 8] obtain d7 a8 where 7: "s0 + s1 + s2 + s3 + s4 + s5 + s6 + s7 = Finite d7" "s8 = Finite a8"
    by auto
  from fin[OF 7(1)] obtain d6 a7 where 6: "s0 + s1 + s2 + s3 + s4 + s5 + s6 = Finite d6" "s7 = Finite a7"
    by auto
  from fin[OF 6(1)] obtain d5 a6 where 5: "s0 + s1 + s2 + s3 + s4 + s5 = Finite d5" "s6 = Finite a6"
    by auto
  from fin[OF 5(1)] obtain d4 a5 where 4: "s0 + s1 + s2 + s3 + s4 = Finite d4" "s5 = Finite a5"
    by auto
  from fin[OF 4(1)] obtain d3 a4 where 3: "s0 + s1 + s2 + s3 = Finite d3" "s4 = Finite a4"
    by auto
  from fin[OF 3(1)] obtain d2 a3 where 2: "s0 + s1 + s2 = Finite d2" "s3 = Finite a3"
    by auto
  from fin[OF 2(1)] obtain d1 a2 where 1: "s0 + s1 = Finite d1" "s2 = Finite a2"
    by auto
  from fin[OF 1(1)] obtain a0 a1 where 0: "s0 = Finite a0" "s1 = Finite a1"
    by auto
  define g where "g = (\<lambda>i::nat. [a0, a1, a2, a3, a4, a5, a6, a7, a8] ! i)"
  have g: "g 0 = a0" "g 1 = a1" "g 2 = a2" "g 3 = a3" "g 4 = a4" "g 5 = a5" "g 6 = a6"
    "g 7 = a7" "g 8 = a8"
    by (simp_all add: g_def)
  have sg: "s = (Finite (g 0), Finite (g 1), Finite (g 2), Finite (g 3), Finite (g 4),
                 Finite (g 5), Finite (g 6), Finite (g 7), Finite (g 8))"
    unfolding g s 0 1 2 3 4 5 6 7 by (rule refl)
  moreover have "local_density_of g = d"
    using assms unfolding sg cell_density_finite by simp
  ultimately show ?thesis by (rule that)
qed

lemma cell_speed_finite:
  assumes "local_density_of g \<noteq> 0"
  shows "cell_speed (Finite (g 0), Finite (g 1), Finite (g 2), Finite (g 3), Finite (g 4),
                     Finite (g 5), Finite (g 6), Finite (g 7), Finite (g 8)) =
         Finite (sqrt ((u_x_of g)\<^sup>2 + (u_y_of g)\<^sup>2))"
proof -
  define ld where "ld = local_density_of g"
  have ld: "Finite 0 + Finite (g 0) + Finite (g 1) + Finite (g 2) + Finite (g 3) + Finite (g 4)
      + Finite (g 5) + Finite (g 6) + Finite (g 7) + Finite (g 8) = Finite ld"
    by (simp add: ld_def local_density_of_def sum_lessThan_9)
  have ux: "(Finite (g 1) + Finite (g 5) + Finite (g 8) - (Finite (g 3) + Finite (g 6) + Finite (g 7)))
      / Finite ld = Finite (u_x_of g)"
    using assms by (simp add: u_x_of_def ld_def algebra_simps)
  have uy: "(Finite (g 2) + Finite (g 5) + Finite (g 6) - (Finite (g 4) + Finite (g 7) + Finite (g 8)))
      / Finite ld = Finite (u_y_of g)"
    using assms by (simp add: u_y_of_def ld_def algebra_simps)
  show ?thesis
    unfolding cell_speed_def prod.case Let_def ld ux uy
    by (simp add: power2_eq_square not_less)
qed

lemma relax_proper:
  assumes "cell_density s = Finite d" "d \<noteq> 0"
  shows "cell_speed (fst (relax (Finite om) s)) = snd (relax (Finite om) s)"
    and "\<exists>v. snd (relax (Finite om) s) = Finite v"
    and "cell_density (fst (relax (Finite om) s)) = cell_density s"
proof -
  from assms(1) obtain g where
    s: "s = (Finite (g 0), Finite (g 1), Finite (g 2), Finite (g 3), Finite (g 4),
             Finite (g 5), Finite (g 6), Finite (g 7), Finite (g 8))"
    and g: "local_density_of g = d"
    by (rule cell_density_FiniteD)
  have nz: "local_density_of g \<noteq> 0" "local_density_of (f_new om g) \<noteq> 0"
    using g assms(2) by (simp_all add: f_new_density)
  show "cell_speed (fst (relax (Finite om) s)) = snd (relax (Finite om) s)"
    unfolding s relax_finite[OF nz(1)] fst_conv snd_conv cell_speed_finite[OF nz(2)]
      f_new_velocity[OF nz(1)] by (rule refl)
  show "\<exists>v. snd (relax (Finite om) s) = Finite v"
    unfolding s relax_finite[OF nz(1)] by simp
  show "cell_density (fst (relax (Finite om) s)) = cell_density s"
    unfolding s relax_finite[OF nz(1)] fst_conv cell_density_finite f_new_density by (rule refl)
qed

lemma cfloat_divide_zero: "a / Finite 0 = NonFinite"
  by (cases a) simp_all

lemma sum_Finite:
  assumes "finite A" "\<And>k. k \<in> A \<Longrightarrow> \<exists>r. g k = Finite r"
  shows "\<exists>r. sum g A = Finite r"
  using assms
proof (induction A rule: finite_induct)
  case empty
  then show ?case by (simp add: zero_cfloat_def)
next
  case (insert a A)
  then obtain r r' where "g a = Finite r" "sum g A = Finite r'"
    by (metis insertCI)
  with insert.hyps show ?case by simp
qed

lemma free_count_pos:
  assumes "k < n" "obstacles ! k = 0"
  shows "0 < free_count obstacles n"
  unfolding free_count_def
  by (rule sum_pos2[of _ k]) (use assms in auto)

lemma free_count_none:
  assumes "\<And>k. k < n \<Longrightarrow> obstacles ! k \<noteq> 0"
  shows "free_count obstacles n = 0"
  unfolding free_count_def using assms by (intro sum.neutral) auto

lemma free_count_all:
  assumes "\<And>k. k < n \<Longrightarrow> obstacles ! k = 0"
  shows "free_count obstacles n = int n"
  unfolding free_count_def using assms by simp

lemma grid_cell_cases:
  fixes n m :: int
  assumes "int k < n * m" "0 \<le> m"
  obtains x y where "0 \<le> x" "x < n" "0 \<le> y" "y < m" "k = nat (x + y * n)"
proof -
  have n: "0 < n"
  proof (rule ccontr)
    assume "\<not> 0 < n"
    then have "n * m \<le> 0" using assms(2) by (simp add: mult_le_0_iff)
    with assms(1) show False by simp
  qed
  define x where "x = int k mod n"
  define y where "y = int k div n"
  have x: "0 \<le> x" "x < n" using n by (simp_all add: x_def)
  have y0: "0 \<le> y" using n by (simp add: y_def pos_imp_zdiv_nonneg_iff)
  have k: "int k = x + y * n" by (simp add: x_def y_def)
  have "y < m"
  proof (rule ccontr)
    assume "\<not> y < m"
    then have "m * n \<le> y * n" using n by (intro mult_right_mono) auto
    moreover have "y * n \<le> int k" using k x by simp
    moreover have "int k < m * n" using assms(1) by (simp add: mult.commute)
    ultimately show False by linarith
  qed
  moreover have "k = nat (x + y * n)" using k by simp
  ultimately show ?thesis using x y0 by (intro that)
qed

subsection \<open>Zero acceleration; periodic shifts permute the grid\<close>

lemma upd_range_id:
  assumes "\<And>k. k < length old \<Longrightarrow> f k = old ! k"
  shows "upd_range f old lo hi = old"
  by (rule nth_equalityI) (simp_all add: nth_upd_range assms)

lemma cfloat_add_zero: "a + Finite 0 = a"
  by (cases a) simp_all

lemma cfloat_diff_zero: "a - Finite 0 = a"
  by (cases a) simp_all

lemma accelerate_upto_zero:
  assumes "accel params = Finite 0"
  shows "accelerate_upto params cells obstacles m = cells"
proof (cases "density params")
  case (Finite d)
  then have "accel_w1 params = Finite 0" "accel_w2 params = Finite 0"
    by (simp_all add: accel_w1_def accel_w2_def assms)
  then show ?thesis
    by (simp add: accelerate_upto_def Let_def upd_range_id cfloat_add_zero cfloat_diff_zero)
next
  case NonFinite
  then have "accel_w1 params = NonFinite"
    by (simp add: accel_w1_def)
  then have "\<not> accel_applies params cells obstacles k" for k
    by (simp add: accel_applies_def)
  then show ?thesis
    by (simp add: accelerate_upto_def Let_def upd_range_id)
qed

lemma accelerate_flow_zero:
  assumes "allocated params cells" "sized params obstacles" "0 \<le> nx params" "2 \<le> ny params"
    and "accel params = Finite 0"
  shows "accelerate_flow params cells obstacles = Some cells"
  using accelerate_flow_eq[OF assms(1-4)] by (simp add: accelerate_upto_zero[OF assms(5)])

lemma wrap_inj:
  fixes n :: int
  shows "inj_on (\<lambda>c. (c + 1) mod n) {0..<n}"
    and "inj_on (\<lambda>c. if c = 0 then c + n - 1 else c - 1) {0..<n}"
    and "(\<lambda>c. (c + 1) mod n) ` {0..<n} \<subseteq> {0..<n}"
    and "(\<lambda>c. if c = 0 then c + n - 1 else c - 1) ` {0..<n} \<subseteq> {0..<n}"
proof -
  have nxt: "(c + 1) mod n = (if c = n - 1 then 0 else c + 1)" if "0 \<le> c" "c < n" for c
    using that by auto
  show "inj_on (\<lambda>c. (c + 1) mod n) {0..<n}"
    by (rule inj_onI) (auto simp: nxt split: if_splits)
  show "inj_on (\<lambda>c. if c = 0 then c + n - 1 else c - 1) {0..<n}"
    by (rule inj_onI) (auto split: if_splits)
  show "(\<lambda>c. (c + 1) mod n) ` {0..<n} \<subseteq> {0..<n}"
    by (auto simp: nxt)
  show "(\<lambda>c. if c = 0 then c + n - 1 else c - 1) ` {0..<n} \<subseteq> {0..<n}"
    by auto
qed

lemma shift_bij:
  fixes n m :: int
  assumes n: "0 < n" and m: "0 < m"
    and fx: "inj_on fx {0..<n}" "fx ` {0..<n} \<subseteq> {0..<n}"
    and fy: "inj_on fy {0..<m}" "fy ` {0..<m} \<subseteq> {0..<m}"
  shows "bij_betw (\<lambda>k. nat (fx (int k mod n) + fy (int k div n) * n))
           {..<nat (n * m)} {..<nat (n * m)}"
proof -
  let ?s = "\<lambda>k. nat (fx (int k mod n) + fy (int k div n) * n)"
  have coords: "int k mod n \<in> {0..<n}" "int k div n \<in> {0..<m}" if "k < nat (n * m)" for k
  proof -
    from that have "int k < n * m" by simp
    then obtain x y where "0 \<le> x" "x < n" "0 \<le> y" "y < m" "k = nat (x + y * n)"
      using m by (elim grid_cell_cases) auto
    then show "int k mod n \<in> {0..<n}" "int k div n \<in> {0..<m}"
      by simp_all
  qed
  have range: "0 \<le> fx (int k mod n)" "fx (int k mod n) < n"
    "0 \<le> fy (int k div n)" "fy (int k div n) < m" if "k < nat (n * m)" for k
  proof -
    have "fx (int k mod n) \<in> {0..<n}" "fy (int k div n) \<in> {0..<m}"
      using coords[OF that] fx(2) fy(2) by blast+
    then show "0 \<le> fx (int k mod n)" "fx (int k mod n) < n"
      "0 \<le> fy (int k div n)" "fy (int k div n) < m"
      by simp_all
  qed
  have into: "?s ` {..<nat (n * m)} \<subseteq> {..<nat (n * m)}"
  proof
    fix j
    assume "j \<in> ?s ` {..<nat (n * m)}"
    then obtain k where k: "k < nat (n * m)" "j = ?s k" by auto
    from cell_index_bounds[OF range[OF k(1)]] k(2) show "j \<in> {..<nat (n * m)}"
      by auto
  qed
  have inj: "inj_on ?s {..<nat (n * m)}"
  proof (rule inj_onI)
    fix k k'
    assume k: "k \<in> {..<nat (n * m)}" and k': "k' \<in> {..<nat (n * m)}" and e: "?s k = ?s k'"
    from k k' have kk: "k < nat (n * m)" "k' < nat (n * m)" by auto
    have "fx (int k mod n) + fy (int k div n) * n = fx (int k' mod n) + fy (int k' div n) * n"
      using e cell_index_bounds(1)[OF range[OF kk(1)]] cell_index_bounds(1)[OF range[OF kk(2)]]
      by simp
    then have "fx (int k mod n) = fx (int k' mod n)" "fy (int k div n) = fy (int k' div n)"
      using cell_index_decode[OF range(1,2)[OF kk(1)], of "fy (int k div n)"]
        cell_index_decode[OF range(1,2)[OF kk(2)], of "fy (int k' div n)"]
      by simp_all
    then have "int k mod n = int k' mod n" "int k div n = int k' div n"
      using coords[OF kk(1)] coords[OF kk(2)] fx(1) fy(1) by (auto dest: inj_onD)
    then have "int k = int k'"
      by (metis mult_div_mod_eq)
    then show "k = k'" by simp
  qed
  have "?s ` {..<nat (n * m)} = {..<nat (n * m)}"
    using inj into by (intro endo_inj_surj) auto
  with inj show ?thesis by (simp add: bij_betw_def)
qed

lemma sum_shifted:
  fixes n m :: int and a :: "'a::comm_monoid_add list"
  assumes "0 < n" "0 < m"
    and "inj_on fx {0..<n}" "fx ` {0..<n} \<subseteq> {0..<n}"
    and "inj_on fy {0..<m}" "fy ` {0..<m} \<subseteq> {0..<m}"
  shows "(\<Sum>k<nat (n * m). a ! nat (fx (int k mod n) + fy (int k div n) * n)) =
         (\<Sum>k<nat (n * m). a ! k)"
  by (rule sum.reindex_bij_betw[OF shift_bij[OF assms], of "\<lambda>k. a ! k"])

subsection \<open>Conservation and the equilibrium grid\<close>

lemma density_pulled:
  assumes nx: "0 < nx params" and ny: "0 < ny params"
  shows "(\<Sum>k<nat (nx params * ny params). cell_density (pulled params cells k)) =
         (\<Sum>k<nat (nx params * ny params). cell_density (cell_of cells k))"
proof -
  let ?n = "nat (nx params * ny params)"
  note sh = sum_shifted[OF nx ny]
  note wx = wrap_inj[of "nx params"]
  note wy = wrap_inj[of "ny params"]
  have idx: "inj_on (\<lambda>c::int. c) {0..<nx params}" "(\<lambda>c::int. c) ` {0..<nx params} \<subseteq> {0..<nx params}"
    by simp_all
  have idy: "inj_on (\<lambda>c::int. c) {0..<ny params}" "(\<lambda>c::int. c) ` {0..<ny params} \<subseteq> {0..<ny params}"
    by simp_all
  have e:
    "(\<Sum>k<?n. speeds0 cells ! nat (int k mod nx params + int k div nx params * nx params))
       = (\<Sum>k<?n. speeds0 cells ! k)"
    "(\<Sum>k<?n. speeds1 cells ! nat ((if int k mod nx params = 0 then int k mod nx params + nx params - 1
          else int k mod nx params - 1) + int k div nx params * nx params))
       = (\<Sum>k<?n. speeds1 cells ! k)"
    "(\<Sum>k<?n. speeds2 cells ! nat (int k mod nx params + (if int k div nx params = 0
          then int k div nx params + ny params - 1 else int k div nx params - 1) * nx params))
       = (\<Sum>k<?n. speeds2 cells ! k)"
    "(\<Sum>k<?n. speeds3 cells ! nat ((int k mod nx params + 1) mod nx params
          + int k div nx params * nx params))
       = (\<Sum>k<?n. speeds3 cells ! k)"
    "(\<Sum>k<?n. speeds4 cells ! nat (int k mod nx params
          + (int k div nx params + 1) mod ny params * nx params))
       = (\<Sum>k<?n. speeds4 cells ! k)"
    "(\<Sum>k<?n. speeds5 cells ! nat ((if int k mod nx params = 0 then int k mod nx params + nx params - 1
          else int k mod nx params - 1) + (if int k div nx params = 0
          then int k div nx params + ny params - 1 else int k div nx params - 1) * nx params))
       = (\<Sum>k<?n. speeds5 cells ! k)"
    "(\<Sum>k<?n. speeds6 cells ! nat ((int k mod nx params + 1) mod nx params + (if int k div nx params = 0
          then int k div nx params + ny params - 1 else int k div nx params - 1) * nx params))
       = (\<Sum>k<?n. speeds6 cells ! k)"
    "(\<Sum>k<?n. speeds7 cells ! nat ((int k mod nx params + 1) mod nx params
          + (int k div nx params + 1) mod ny params * nx params))
       = (\<Sum>k<?n. speeds7 cells ! k)"
    "(\<Sum>k<?n. speeds8 cells ! nat ((if int k mod nx params = 0 then int k mod nx params + nx params - 1
          else int k mod nx params - 1) + (int k div nx params + 1) mod ny params * nx params))
       = (\<Sum>k<?n. speeds8 cells ! k)"
    using sh[OF idx idy, of "speeds0 cells"]
      sh[OF wx(2,4) idy, of "speeds1 cells"]
      sh[OF idx wy(2,4), of "speeds2 cells"]
      sh[OF wx(1,3) idy, of "speeds3 cells"]
      sh[OF idx wy(1,3), of "speeds4 cells"]
      sh[OF wx(2,4) wy(2,4), of "speeds5 cells"]
      sh[OF wx(1,3) wy(2,4), of "speeds6 cells"]
      sh[OF wx(1,3) wy(1,3), of "speeds7 cells"]
      sh[OF wx(2,4) wy(1,3), of "speeds8 cells"]
    by blast+
  have "(\<Sum>k<?n. cell_density (pulled params cells k)) =
      (\<Sum>k<?n. speeds0 cells ! k) + (\<Sum>k<?n. speeds1 cells ! k) + (\<Sum>k<?n. speeds2 cells ! k)
      + (\<Sum>k<?n. speeds3 cells ! k) + (\<Sum>k<?n. speeds4 cells ! k) + (\<Sum>k<?n. speeds5 cells ! k)
      + (\<Sum>k<?n. speeds6 cells ! k) + (\<Sum>k<?n. speeds7 cells ! k) + (\<Sum>k<?n. speeds8 cells ! k)"
    unfolding pulled_def cell_density_def Let_def prod.case sum.distrib e by (rule refl)
  also have "\<dots> = (\<Sum>k<?n. cell_density (cell_of cells k))"
    unfolding cell_of_def cell_density_def prod.case sum.distrib by (rule refl)
  finally show ?thesis .
qed

lemma pulled_const:
  assumes al: "allocated params cells"
    and c: "\<And>j. int j < nx params * ny params \<Longrightarrow> cell_of cells j = (e0, e1, e2, e3, e4, e5, e6, e7, e8)"
    and k: "int k < nx params * ny params" and ny: "0 \<le> ny params"
  shows "pulled params cells k = (e0, e1, e2, e3, e4, e5, e6, e7, e8)"
proof -
  from k ny obtain x y where xy: "0 \<le> x" "x < nx params" "0 \<le> y" "y < ny params"
    "k = nat (x + y * nx params)"
    by (rule grid_cell_cases)
  have at: "speeds0 cells ! nat (a + b * nx params) = e0" "speeds1 cells ! nat (a + b * nx params) = e1"
    "speeds2 cells ! nat (a + b * nx params) = e2" "speeds3 cells ! nat (a + b * nx params) = e3"
    "speeds4 cells ! nat (a + b * nx params) = e4" "speeds5 cells ! nat (a + b * nx params) = e5"
    "speeds6 cells ! nat (a + b * nx params) = e6" "speeds7 cells ! nat (a + b * nx params) = e7"
    "speeds8 cells ! nat (a + b * nx params) = e8"
    if "0 \<le> a" "a < nx params" "0 \<le> b" "b < ny params" for a b
    using c[of "nat (a + b * nx params)"] cell_index_bounds[OF that]
    by (simp_all add: cell_of_def)
  have dec: "int k mod nx params = x" "int k div nx params = y"
    using xy cell_index_bounds(1)[OF xy(1-4)] by simp_all
  note wx = wrap_bounds[OF xy(1,2)]
  note wy = wrap_bounds[OF xy(3,4)]
  show ?thesis
    unfolding pulled_def Let_def dec
    by (simp only: at[OF xy(1-4)] at[OF wx(3,4) xy(3,4)] at[OF xy(1,2) wy(3,4)]
        at[OF wx(1,2) xy(3,4)] at[OF xy(1,2) wy(1,2)] at[OF wx(3,4) wy(3,4)]
        at[OF wx(1,2) wy(3,4)] at[OF wx(1,2) wy(1,2)] at[OF wx(3,4) wy(1,2)])
qed

lemma equilibrium_fixed:
  assumes "d \<noteq> 0"
  shows "relax (Finite om)
           (Finite (d * 4 / 9), Finite (d / 9), Finite (d / 9), Finite (d / 9), Finite (d / 9),
            Finite (d / 36), Finite (d / 36), Finite (d / 36), Finite (d / 36)) =
         ((Finite (d * 4 / 9), Finite (d / 9), Finite (d / 9), Finite (d / 9), Finite (d / 9),
           Finite (d / 36), Finite (d / 36), Finite (d / 36), Finite (d / 36)), Finite 0)"
proof -
  have ld: "d * 4 / 9 + d / 9 + d / 9 + d / 9 + d / 9 + d / 36 + d / 36 + d / 36 + d / 36 = d"
    by simp
  have u: "d / 9 + d / 36 + d / 36 - (d / 9 + d / 36 + d / 36) = 0"
    by simp
  show ?thesis
    using assms
    by (subst relax_code) (simp_all only: ld u, simp_all)
qed

lemma sized_eqI:
  assumes "sized params xs" "sized params ys"
    and "\<And>k. int k < nx params * ny params \<Longrightarrow> xs ! k = ys ! k"
  shows "xs = ys"
proof (rule nth_equalityI)
  show "length xs = length ys"
    using assms(1,2) by (simp add: sized_def)
  fix k
  assume "k < length xs"
  then have "int k < nx params * ny params"
    using assms(1) by (simp add: sized_def)
  then show "xs ! k = ys ! k" by (rule assms(3))
qed

lemma cells_eqI:
  fixes a b :: t_speed
  assumes a: "allocated params a" and b: "allocated params b"
    and c: "\<And>k. int k < nx params * ny params \<Longrightarrow> cell_of a k = cell_of b k"
  shows "a = b"
proof (rule t_speed.equality)
  have sa: "sized params (speeds0 a)" "sized params (speeds1 a)" "sized params (speeds2 a)"
    "sized params (speeds3 a)" "sized params (speeds4 a)" "sized params (speeds5 a)"
    "sized params (speeds6 a)" "sized params (speeds7 a)" "sized params (speeds8 a)"
    using a by (simp_all add: allocated_def)
  have sb: "sized params (speeds0 b)" "sized params (speeds1 b)" "sized params (speeds2 b)"
    "sized params (speeds3 b)" "sized params (speeds4 b)" "sized params (speeds5 b)"
    "sized params (speeds6 b)" "sized params (speeds7 b)" "sized params (speeds8 b)"
    using b by (simp_all add: allocated_def)
  show "speeds0 a = speeds0 b"
    using c by (intro sized_eqI[OF sa(1) sb(1)]) (simp add: cell_of_def)
  show "speeds1 a = speeds1 b"
    using c by (intro sized_eqI[OF sa(2) sb(2)]) (simp add: cell_of_def)
  show "speeds2 a = speeds2 b"
    using c by (intro sized_eqI[OF sa(3) sb(3)]) (simp add: cell_of_def)
  show "speeds3 a = speeds3 b"
    using c by (intro sized_eqI[OF sa(4) sb(4)]) (simp add: cell_of_def)
  show "speeds4 a = speeds4 b"
    using c by (intro sized_eqI[OF sa(5) sb(5)]) (simp add: cell_of_def)
  show "speeds5 a = speeds5 b"
    using c by (intro sized_eqI[OF sa(6) sb(6)]) (simp add: cell_of_def)
  show "speeds6 a = speeds6 b"
    using c by (intro sized_eqI[OF sa(7) sb(7)]) (simp add: cell_of_def)
  show "speeds7 a = speeds7 b"
    using c by (intro sized_eqI[OF sa(8) sb(8)]) (simp add: cell_of_def)
  show "speeds8 a = speeds8 b"
    using c by (intro sized_eqI[OF sa(9) sb(9)]) (simp add: cell_of_def)
qed simp

lemma initialise_upto_full:
  assumes al: "allocated params cells" and ob: "sized params obstacles"
  shows "allocated params (fst (initialise_upto params cells obstacles (nx params * ny params)))"
    and "sized params (snd (initialise_upto params cells obstacles (nx params * ny params)))"
    and "int k < nx params * ny params \<Longrightarrow>
         snd (initialise_upto params cells obstacles (nx params * ny params)) ! k = 0"
    and "int k < nx params * ny params \<Longrightarrow>
         cell_of (fst (initialise_upto params cells obstacles (nx params * ny params))) k =
           (density params * Finite 4 / Finite 9,
            density params / Finite 9, density params / Finite 9,
            density params / Finite 9, density params / Finite 9,
            density params / Finite 36, density params / Finite 36,
            density params / Finite 36, density params / Finite 36)"
proof -
  show "allocated params (fst (initialise_upto params cells obstacles (nx params * ny params)))"
    using al by (simp add: initialise_upto_def Let_def allocated_def sized_def)
  show "sized params (snd (initialise_upto params cells obstacles (nx params * ny params)))"
    using ob by (simp add: initialise_upto_def Let_def sized_def)
  assume k: "int k < nx params * ny params"
  then have "k < length obstacles"
    using ob by (simp add: sized_def)
  then show "snd (initialise_upto params cells obstacles (nx params * ny params)) ! k = 0"
    using k by (simp add: initialise_upto_def Let_def nth_upd_range)
  have "k < length (speeds0 cells)" "k < length (speeds1 cells)" "k < length (speeds2 cells)"
    "k < length (speeds3 cells)" "k < length (speeds4 cells)" "k < length (speeds5 cells)"
    "k < length (speeds6 cells)" "k < length (speeds7 cells)" "k < length (speeds8 cells)"
    using allocated_lengths[OF al _ k] by simp_all
  then show "cell_of (fst (initialise_upto params cells obstacles (nx params * ny params))) k =
           (density params * Finite 4 / Finite 9,
            density params / Finite 9, density params / Finite 9,
            density params / Finite 9, density params / Finite 9,
            density params / Finite 36, density params / Finite 36,
            density params / Finite 36, density params / Finite 36)"
    using k by (simp add: initialise_upto_def Let_def cell_of_def nth_upd_range)
qed

subsection \<open>Single precision on examples\<close>

lemmas single_precision =
  add32_def sub32_def mul32_def div32_def sqrtf32_def float_of_int32_def float_of_int_def
  rnd_def round32_def norm32.simps round_even_def pow2_def Let_def

text \<open>
  The rounding at work: 0.3, 1.85 and a third are not \<^verbatim>\<open>float\<close>s, \<open>2\<^sup>2\<^sup>4 + 1\<close> and \<open>2\<^sup>2\<^sup>4 + 3\<close>
  lie half way between two of them, \<open>2\<^sup>-\<^sup>1\<^sup>4\<^sup>9\<close> is the smallest positive one, and \<open>2\<^sup>1\<^sup>2\<^sup>8\<close> is
  beyond the largest.
\<close>

lemma round32_examples:
  "round32 (3 / 10) = Finite (5033165 / 16777216)"
  "round32 (37 / 20) = Finite (15518925 / 8388608)"
  "round32 (- (1 / 3)) = Finite (- (11184811 / 33554432))"
  "round32 (1 / 2) = Finite (1 / 2)"
  "round32 16777217 = Finite 16777216"
  "round32 16777219 = Finite 16777220"
  "round32 (1 / 2 ^ 150) = Finite 0"
  "round32 (3 / 2 ^ 150) = Finite (1 / 2 ^ 148)"
  "round32 (2 ^ 128 - 2 ^ 104) = Finite (2 ^ 128 - 2 ^ 104)"
  "round32 (2 ^ 128) = NonFinite"
  by (simp_all add: single_precision)

text \<open>
  The weights of \<^verbatim>\<open>timestep\<close> are rounded quotients. The collision of the cell that
  \<^verbatim>\<open>initialise\<close> writes for the density 0.3: the nine values sum to a local density
  just below the density, and the relaxation towards the equilibrium of that local
  density lowers every one of them.
\<close>

lemma weights32:
  "div32 (Finite 4) (Finite 9) = Finite (14913081 / 33554432)"
  "div32 (Finite 1) (Finite 9) = Finite (14913081 / 134217728)"
  "div32 (Finite 1) (Finite 36) = Finite (14913081 / 536870912)"
  by (simp_all add: single_precision)

lemma local_density32_example:
  "add32 (add32 (add32 (add32 (add32 (add32 (add32 (add32
       (Finite (8947849 / 67108864)) (Finite (8947849 / 268435456)))
       (Finite (8947849 / 268435456))) (Finite (8947849 / 268435456)))
       (Finite (8947849 / 268435456))) (Finite (8947849 / 1073741824)))
       (Finite (8947849 / 1073741824))) (Finite (8947849 / 1073741824)))
       (Finite (8947849 / 1073741824))
   = Finite (10066329 / 33554432)"
  by (simp add: single_precision)

lemma relax32_example:
  "relax32 (Finite (15518925 / 8388608))
     (Finite (8947849 / 67108864),
      Finite (8947849 / 268435456), Finite (8947849 / 268435456),
      Finite (8947849 / 268435456), Finite (8947849 / 268435456),
      Finite (8947849 / 1073741824), Finite (8947849 / 1073741824),
      Finite (8947849 / 1073741824), Finite (8947849 / 1073741824))
   = ((Finite (8947847 / 67108864),
       Finite (8947847 / 268435456), Finite (8947847 / 268435456),
       Finite (8947847 / 268435456), Finite (8947847 / 268435456),
       Finite (8947847 / 1073741824), Finite (8947847 / 1073741824),
       Finite (8947847 / 1073741824), Finite (8947847 / 1073741824)), Finite 0)"
  unfolding relax32_def prod.case
  by (simp add: single_precision cong: let_weak_cong)

section \<open>Properties of the program\<close>

text \<open>
  C1. For every cell \<open>(x, y)\<close> that is not an obstacle and whose nine pulled values
  \<open>f 0\<close> .. \<open>f 8\<close> are numbers with a nonzero sum, the pass returns and has written to
  the scratch grid, for each direction \<open>i\<close>, the value \<open>f i + omega * (f_eq i - f i)\<close>,
  where \<open>local_density\<close> is the sum of the \<open>f i\<close>,
  \<open>u_x = (f 1 + f 5 + f 8 - f 3 - f 6 - f 7) / local_density\<close>,
  \<open>u_y = (f 2 + f 5 + f 6 - f 4 - f 7 - f 8) / local_density\<close> and
  \<open>f_eq i = w i * local_density * (1 + 3 * (e i \<cdot> u) + 4.5 * (e i \<cdot> u)\<^sup>2 - 1.5 * (u_x\<^sup>2 + u_y\<^sup>2))\<close>
  with the weight \<open>4/9\<close> for direction 0, \<open>1/9\<close> for the directions 1 to 4 and \<open>1/36\<close> for
  the directions 5 to 8.
\<close>

theorem fluid_cell_relaxed:
  assumes "allocated params cells" "allocated params tmp_cells" "sized params obstacles"
    and "0 \<le> x" "x < nx params" "0 \<le> y" "y < ny params"
    and "obstacles ! nat (x + y * nx params) = 0"
    and "pull_at params cells y x =
           Some (Finite (f 0), Finite (f 1), Finite (f 2), Finite (f 3), Finite (f 4),
                 Finite (f 5), Finite (f 6), Finite (f 7), Finite (f 8))"
    and "omega params = Finite om"
    and "local_density_of f \<noteq> 0"
  shows "\<exists>tmp' av. stream_collide params cells tmp_cells obstacles = Some (tmp', av) \<and>
     speeds0 tmp' ! nat (x + y * nx params) = Finite (f_new om f 0) \<and>
     speeds1 tmp' ! nat (x + y * nx params) = Finite (f_new om f 1) \<and>
     speeds2 tmp' ! nat (x + y * nx params) = Finite (f_new om f 2) \<and>
     speeds3 tmp' ! nat (x + y * nx params) = Finite (f_new om f 3) \<and>
     speeds4 tmp' ! nat (x + y * nx params) = Finite (f_new om f 4) \<and>
     speeds5 tmp' ! nat (x + y * nx params) = Finite (f_new om f 5) \<and>
     speeds6 tmp' ! nat (x + y * nx params) = Finite (f_new om f 6) \<and>
     speeds7 tmp' ! nat (x + y * nx params) = Finite (f_new om f 7) \<and>
     speeds8 tmp' ! nat (x + y * nx params) = Finite (f_new om f 8)"
proof -
  from stream_collide_at[OF assms(1-7)] assms(9)
  obtain tmp' av where r:
    "pulled params cells (nat (x + y * nx params)) =
       (Finite (f 0), Finite (f 1), Finite (f 2), Finite (f 3), Finite (f 4),
        Finite (f 5), Finite (f 6), Finite (f 7), Finite (f 8))"
    "stream_collide params cells tmp_cells obstacles = Some (tmp', av)"
    "cell_of tmp' (nat (x + y * nx params)) =
       scratch_cell params cells tmp_cells obstacles (nat (x + y * nx params))"
    by auto
  have "cell_of tmp' (nat (x + y * nx params)) =
      (Finite (f_new om f 0), Finite (f_new om f 1), Finite (f_new om f 2),
       Finite (f_new om f 3), Finite (f_new om f 4), Finite (f_new om f 5),
       Finite (f_new om f 6), Finite (f_new om f 7), Finite (f_new om f 8))"
  proof -
    have "scratch_cell params cells tmp_cells obstacles (nat (x + y * nx params)) =
        fst (relax (omega params) (pulled params cells (nat (x + y * nx params))))"
      using assms(8) by (simp add: scratch_cell_def split: prod.splits)
    then show ?thesis
      unfolding r(3) r(1) assms(10) relax_finite[OF assms(11)] by (simp only: fst_conv)
  qed
  then show ?thesis
    using r(2) by (simp add: cell_of_def)
qed

theorem fluid_cell_relaxed_witness:
  "\<exists>tmp' av. stream_collide ex_params ex_cells ex_tmp_cells ex_obstacles = Some (tmp', av) \<and>
     speeds0 tmp' ! 0 = Finite (2876 / 171) \<and>
     speeds1 tmp' ! 0 = Finite (f_new 1 (\<lambda>i. [16, 4, 4, 4, 4, 1, 2, 2, 1] ! i) 1) \<and>
     speeds3 tmp' ! 0 = Finite (f_new 1 (\<lambda>i. [16, 4, 4, 4, 4, 1, 2, 2, 1] ! i) 3)"
proof -
  have "f_new 1 (\<lambda>i. [16, 4, 4, 4, 4, 1, 2, 2, 1] ! i) 0 = 2876 / 171"
    by (simp add: f_new_def f_eq_def local_density_of_def u_x_of_def u_y_of_def sum_lessThan_9
        lattice_weight_def lattice_ex_def lattice_ey_def Let_def power2_eq_square)
  then show ?thesis
    using fluid_cell_relaxed[of ex_params ex_cells ex_tmp_cells ex_obstacles 0 0
        "\<lambda>i. [16, 4, 4, 4, 4, 1, 2, 2, 1] ! i" 1]
    by (auto simp: ex_params_def ex_cells_def ex_tmp_cells_def ex_obstacles_def allocated_def
        sized_def pull_at_def pull_def rd_def local_density_of_def sum_lessThan_9)
qed

text \<open>
  C2. For every obstacle cell \<open>(x, y)\<close> the pass over the grid returns and has written, at
  that cell of the scratch grid, the mirrored pulled values: direction 1 holds the
  pulled direction-3 value, 3 the pulled 1, 2 the pulled 4, 4 the pulled 2, 5 the
  pulled 7, 7 the pulled 5, 6 the pulled 8 and 8 the pulled 6.
\<close>

theorem obstacle_cell_mirrored:
  assumes "allocated params cells" "allocated params tmp_cells" "sized params obstacles"
    and "0 \<le> x" "x < nx params" "0 \<le> y" "y < ny params"
    and "obstacles ! nat (x + y * nx params) \<noteq> 0"
  shows "\<exists>s0 s1 s2 s3 s4 s5 s6 s7 s8 tmp' av.
     pull_at params cells y x = Some (s0, s1, s2, s3, s4, s5, s6, s7, s8) \<and>
     stream_collide params cells tmp_cells obstacles = Some (tmp', av) \<and>
     speeds1 tmp' ! nat (x + y * nx params) = s3 \<and>
     speeds3 tmp' ! nat (x + y * nx params) = s1 \<and>
     speeds2 tmp' ! nat (x + y * nx params) = s4 \<and>
     speeds4 tmp' ! nat (x + y * nx params) = s2 \<and>
     speeds5 tmp' ! nat (x + y * nx params) = s7 \<and>
     speeds7 tmp' ! nat (x + y * nx params) = s5 \<and>
     speeds6 tmp' ! nat (x + y * nx params) = s8 \<and>
     speeds8 tmp' ! nat (x + y * nx params) = s6"
proof -
  from stream_collide_at[OF assms(1-7)]
  obtain s tmp' av where r: "pull_at params cells y x = Some s"
    "s = pulled params cells (nat (x + y * nx params))"
    "stream_collide params cells tmp_cells obstacles = Some (tmp', av)"
    "cell_of tmp' (nat (x + y * nx params)) =
       scratch_cell params cells tmp_cells obstacles (nat (x + y * nx params))"
    by blast
  obtain s0 s1 s2 s3 s4 s5 s6 s7 s8 where s: "s = (s0, s1, s2, s3, s4, s5, s6, s7, s8)"
    by (cases s) auto
  have p: "pulled params cells (nat (x + y * nx params)) = (s0, s1, s2, s3, s4, s5, s6, s7, s8)"
    using r(2) s by simp
  have "cell_of tmp' (nat (x + y * nx params)) =
      (speeds0 tmp_cells ! nat (x + y * nx params), s3, s4, s1, s2, s7, s8, s5, s6)"
    using assms(8) by (simp add: r(4) scratch_cell_def p)
  then show ?thesis
    using r(1,3) s by (simp add: cell_of_def)
qed

theorem obstacle_cell_mirrored_witness:
  "\<exists>tmp' av. stream_collide ex_params ex_cells ex_tmp_cells ex_obstacles = Some (tmp', av) \<and>
     speeds1 tmp' ! 3 = Finite 5 \<and> speeds3 tmp' ! 3 = Finite 4 \<and>
     speeds2 tmp' ! 3 = Finite 4 \<and> speeds4 tmp' ! 3 = Finite 4 \<and>
     speeds5 tmp' ! 3 = Finite 2 \<and> speeds7 tmp' ! 3 = Finite 1 \<and>
     speeds6 tmp' ! 3 = Finite 1 \<and> speeds8 tmp' ! 3 = Finite 2"
  using obstacle_cell_mirrored[of ex_params ex_cells ex_tmp_cells ex_obstacles 1 1]
  by (simp add: ex_params_def ex_cells_def ex_tmp_cells_def ex_obstacles_def allocated_def
      sized_def pull_at_def pull_def rd_def)

text \<open>
  C3. \<^verbatim>\<open>accelerate_flow\<close> returns, and for every cell \<open>(x, y)\<close> of the grid the nine values
  of the cell afterwards are: when the cell lies in row \<open>ny - 2\<close>, is not an obstacle
  and \<open>f3 - w1 > 0\<close>, \<open>f6 - w2 > 0\<close> and \<open>f7 - w2 > 0\<close> hold for its values (with
  \<open>w1 = density * accel / 9\<close> and \<open>w2 = density * accel / 36\<close>), the old values with \<open>w1\<close>
  added to direction 1, \<open>w2\<close> added to directions 5 and 8, \<open>w1\<close> subtracted from
  direction 3 and \<open>w2\<close> subtracted from directions 6 and 7; in every other case (a test
  fails, the cell is an obstacle, or the cell lies in another row) exactly the old
  nine values. The grid has at least two rows, so that row \<open>ny - 2\<close> exists.
\<close>

theorem accelerate_flow_row:
  assumes "allocated params cells" "sized params obstacles" "2 \<le> ny params"
    and "0 \<le> x" "x < nx params" "0 \<le> y" "y < ny params"
  shows "\<exists>cells'. accelerate_flow params cells obstacles = Some cells' \<and>
     cell_of cells' (nat (x + y * nx params)) =
       (let k = nat (x + y * nx params);
            w1 = density params * accel params / Finite 9;
            w2 = density params * accel params / Finite 36
        in if y = ny params - 2 \<and> obstacles ! k = 0 \<and>
              fgt (speeds3 cells ! k - w1) (Finite 0) \<and>
              fgt (speeds6 cells ! k - w2) (Finite 0) \<and>
              fgt (speeds7 cells ! k - w2) (Finite 0)
           then (speeds0 cells ! k, speeds1 cells ! k + w1, speeds2 cells ! k,
                 speeds3 cells ! k - w1, speeds4 cells ! k, speeds5 cells ! k + w2,
                 speeds6 cells ! k - w2, speeds7 cells ! k - w2, speeds8 cells ! k + w2)
           else cell_of cells k)"
proof -
  have b: "0 \<le> x + y * nx params" "x + y * nx params < nx params * ny params"
    using cell_index_bounds[OF assms(4-7)] by auto
  have w: "(ny params - 2) * nx params \<le> x + y * nx params \<and>
           x + y * nx params < (ny params - 2) * nx params + nx params \<longleftrightarrow> y = ny params - 2"
    using row_window[OF assms(4,5)] by simp
  have "accelerate_flow params cells obstacles =
          Some (accelerate_upto params cells obstacles (nx params))"
    using assms by (intro accelerate_flow_eq) auto
  moreover have "cell_of (accelerate_upto params cells obstacles (nx params)) (nat (x + y * nx params)) =
     (if y = ny params - 2 \<and> accel_applies params cells obstacles (nat (x + y * nx params))
      then (speeds0 cells ! nat (x + y * nx params),
            speeds1 cells ! nat (x + y * nx params) + accel_w1 params,
            speeds2 cells ! nat (x + y * nx params),
            speeds3 cells ! nat (x + y * nx params) - accel_w1 params,
            speeds4 cells ! nat (x + y * nx params),
            speeds5 cells ! nat (x + y * nx params) + accel_w2 params,
            speeds6 cells ! nat (x + y * nx params) - accel_w2 params,
            speeds7 cells ! nat (x + y * nx params) - accel_w2 params,
            speeds8 cells ! nat (x + y * nx params) + accel_w2 params)
      else cell_of cells (nat (x + y * nx params)))"
    using b w by (subst cell_of_accelerate_upto[OF assms(1)]) auto
  ultimately show ?thesis
    unfolding Let_def accel_applies_def accel_w1_def accel_w2_def by blast
qed

theorem accelerate_flow_row_witness:
  "\<exists>cells'. accelerate_flow ex_params ex_cells ex_obstacles = Some cells' \<and>
     cell_of cells' 0 =
       (Finite 16, Finite 8, Finite 4, Finite 1, Finite 4, Finite 2, Finite 1, Finite 1, Finite 2) \<and>
     cell_of cells' 1 = cell_of ex_cells 1 \<and>
     cell_of cells' 2 = cell_of ex_cells 2"
  using accelerate_flow_row[of ex_params ex_cells ex_obstacles 0 0]
    accelerate_flow_row[of ex_params ex_cells ex_obstacles 1 0]
    accelerate_flow_row[of ex_params ex_cells ex_obstacles 0 1]
  by (auto simp: ex_params_def ex_cells_def ex_obstacles_def allocated_def sized_def
      cell_of_def Let_def)

text \<open>
  C4 (as amended). For every cell \<open>(x, y)\<close> of the grid the nine pulled values are read at
  periodically wrapped coordinates: direction 0 at the cell itself, 1 (east) at
  \<open>(x - 1, y)\<close>, 2 (north) at \<open>(x, y - 1)\<close>, 3 (west) at \<open>(x + 1, y)\<close>, 4 (south) at
  \<open>(x, y + 1)\<close>, 5 at \<open>(x - 1, y - 1)\<close>, 6 at \<open>(x + 1, y - 1)\<close>, 7 at \<open>(x + 1, y + 1)\<close>
  and 8 at \<open>(x - 1, y + 1)\<close>, where the previous neighbour of coordinate 0 is
  \<open>size - 1\<close> and the next neighbour of coordinate \<open>size - 1\<close> is 0. In particular the
  east pull of cell \<open>(0, y)\<close> is the direction-1 value at \<open>(nx - 1, y)\<close>, the north pull
  of cell \<open>(x, 0)\<close> is the direction-2 value at \<open>(x, ny - 1)\<close>, the west pull of cell
  \<open>(nx - 1, y)\<close> is the direction-3 value at \<open>(0, y)\<close> and the south pull of cell
  \<open>(x, ny - 1)\<close> is the direction-4 value at \<open>(x, 0)\<close>.
\<close>

theorem pull_periodic:
  assumes "allocated params cells"
    and "0 \<le> x" "x < nx params" "0 \<le> y" "y < ny params"
  shows "pull_at params cells y x =
     Some (speeds0 cells ! nat (x + y * nx params),
           speeds1 cells ! nat (wrap_prev (nx params) x + y * nx params),
           speeds2 cells ! nat (x + wrap_prev (ny params) y * nx params),
           speeds3 cells ! nat (wrap_next (nx params) x + y * nx params),
           speeds4 cells ! nat (x + wrap_next (ny params) y * nx params),
           speeds5 cells ! nat (wrap_prev (nx params) x + wrap_prev (ny params) y * nx params),
           speeds6 cells ! nat (wrap_next (nx params) x + wrap_prev (ny params) y * nx params),
           speeds7 cells ! nat (wrap_next (nx params) x + wrap_next (ny params) y * nx params),
           speeds8 cells ! nat (wrap_prev (nx params) x + wrap_next (ny params) y * nx params)) \<and>
     (x = 0 \<longrightarrow> map_option sel1 (pull_at params cells y x) =
           Some (speeds1 cells ! nat (nx params - 1 + y * nx params))) \<and>
     (y = 0 \<longrightarrow> map_option sel2 (pull_at params cells y x) =
           Some (speeds2 cells ! nat (x + (ny params - 1) * nx params))) \<and>
     (x = nx params - 1 \<longrightarrow> map_option sel3 (pull_at params cells y x) =
           Some (speeds3 cells ! nat (0 + y * nx params))) \<and>
     (y = ny params - 1 \<longrightarrow> map_option sel4 (pull_at params cells y x) =
           Some (speeds4 cells ! nat (x + 0 * nx params)))"
proof -
  have b: "0 \<le> x + y * nx params"
    using cell_index_bounds[OF assms(2-5)] by auto
  have nxt: "(x + 1) mod nx params = wrap_next (nx params) x"
    "(y + 1) mod ny params = wrap_next (ny params) y"
    using assms(2-5) by (auto simp: wrap_next_def)
  have prv: "(if x = 0 then x + nx params - 1 else x - 1) = wrap_prev (nx params) x"
    "(if y = 0 then y + ny params - 1 else y - 1) = wrap_prev (ny params) y"
    by (auto simp: wrap_prev_def)
  have 1: "pull_at params cells y x =
     Some (speeds0 cells ! nat (x + y * nx params),
           speeds1 cells ! nat (wrap_prev (nx params) x + y * nx params),
           speeds2 cells ! nat (x + wrap_prev (ny params) y * nx params),
           speeds3 cells ! nat (wrap_next (nx params) x + y * nx params),
           speeds4 cells ! nat (x + wrap_next (ny params) y * nx params),
           speeds5 cells ! nat (wrap_prev (nx params) x + wrap_prev (ny params) y * nx params),
           speeds6 cells ! nat (wrap_next (nx params) x + wrap_prev (ny params) y * nx params),
           speeds7 cells ! nat (wrap_next (nx params) x + wrap_next (ny params) y * nx params),
           speeds8 cells ! nat (wrap_prev (nx params) x + wrap_next (ny params) y * nx params))"
    unfolding pull_eq[OF assms] pulled_def Let_def
    using b cell_index_decode[OF assms(2,3), of y]
    by (simp only: nat_0_le nxt prv)
  have 2: "x = 0 \<longrightarrow> map_option sel1 (pull_at params cells y x) =
           Some (speeds1 cells ! nat (nx params - 1 + y * nx params))"
    using 1 by (auto simp: wrap_prev_def)
  have 3: "y = 0 \<longrightarrow> map_option sel2 (pull_at params cells y x) =
           Some (speeds2 cells ! nat (x + (ny params - 1) * nx params))"
    using 1 by (auto simp: wrap_prev_def)
  have 4: "x = nx params - 1 \<longrightarrow> map_option sel3 (pull_at params cells y x) =
           Some (speeds3 cells ! nat (0 + y * nx params))"
    using 1 by (auto simp: wrap_next_def)
  have 5: "y = ny params - 1 \<longrightarrow> map_option sel4 (pull_at params cells y x) =
           Some (speeds4 cells ! nat (x + 0 * nx params))"
    using 1 by (auto simp: wrap_next_def)
  from 1 2 3 4 5 show ?thesis by (intro conjI)
qed

theorem pull_periodic_witness:
  "pull_at ex3_params ex3_cells 0 0 =
     Some (Finite 0, Finite 12, Finite 26, Finite 31, Finite 43,
           Finite 58, Finite 67, Finite 74, Finite 85) \<and>
   map_option sel1 (pull_at ex3_params ex3_cells 0 0) = Some (speeds1 ex3_cells ! 2) \<and>
   map_option sel2 (pull_at ex3_params ex3_cells 0 0) = Some (speeds2 ex3_cells ! 6) \<and>
   map_option sel3 (pull_at ex3_params ex3_cells 2 2) = Some (speeds3 ex3_cells ! 6) \<and>
   map_option sel4 (pull_at ex3_params ex3_cells 2 2) = Some (speeds4 ex3_cells ! 2)"
  using pull_periodic[of ex3_params ex3_cells 0 0] pull_periodic[of ex3_params ex3_cells 2 2]
  by (simp add: ex3_params_def ex3_cells_def allocated_def sized_def wrap_prev_def wrap_next_def)

theorem pull_west_south_counterexample:
  "map_option sel3 (pull_at ex3_params ex3_cells 0 0) = Some (Finite 31) \<and>
   speeds3 ex3_cells ! nat (nx ex3_params - 1 + 0 * nx ex3_params) = Finite 32 \<and>
   map_option sel4 (pull_at ex3_params ex3_cells 0 0) = Some (Finite 43) \<and>
   speeds4 ex3_cells ! nat (0 + (ny ex3_params - 1) * nx ex3_params) = Finite 46"
  by (simp add: ex3_params_def ex3_cells_def pull_at_def pull_def rd_def)

text \<open>
  C5 (as amended). On a grid of at least one column and two rows without obstacles, with
  \<open>accel = 0\<close>, whose values are numbers such that the pulled local density of every
  cell is nonzero, \<^verbatim>\<open>timestep\<close> returns and \<^verbatim>\<open>total_density\<close> of the scratch grid after it is
  the same number as \<^verbatim>\<open>total_density\<close> of the grid before it.
\<close>

theorem total_density_conserved:
  assumes "allocated params cells" "allocated params tmp_cells" "sized params obstacles"
    and "0 < nx params" "2 \<le> ny params"
    and "accel params = Finite 0" "omega params = Finite om"
    and "\<forall>k. int k < nx params * ny params \<longrightarrow> obstacles ! k = 0"
    and "\<forall>x y. 0 \<le> x \<and> x < nx params \<and> 0 \<le> y \<and> y < ny params \<longrightarrow>
           (\<exists>s d. pull_at params cells y x = Some s \<and> cell_density s = Finite d \<and> d \<noteq> 0)"
  shows "\<exists>cells' tmp' av d. timestep params cells tmp_cells obstacles = Some (cells', tmp', av) \<and>
     total_density params cells = Some (Finite d) \<and>
     total_density params tmp' = Some (Finite d)"
proof -
  let ?n = "nat (nx params * ny params)"
  have nn: "0 \<le> nx params" "0 \<le> ny params" "0 < ny params"
    using assms(4,5) by auto
  have a: "accelerate_flow params cells obstacles = Some cells"
    using assms(1,3) nn(1) assms(5,6) by (rule accelerate_flow_zero)
  from stream_collide_cells[OF assms(1-3) nn(1,2)]
  obtain tmp' av where s: "stream_collide params cells tmp_cells obstacles = Some (tmp', av)"
    "allocated params tmp'"
    "\<forall>k. int k < nx params * ny params \<longrightarrow>
        cell_of tmp' k = scratch_cell params cells tmp_cells obstacles k"
    by blast
  have cell: "cell_density (cell_of tmp' k) = cell_density (pulled params cells k) \<and>
              (\<exists>r. cell_density (pulled params cells k) = Finite r)"
    if k: "k < ?n" for k
  proof -
    from k have k': "int k < nx params * ny params" by simp
    then obtain x y where xy: "0 \<le> x" "x < nx params" "0 \<le> y" "y < ny params"
      "k = nat (x + y * nx params)"
      using nn(2) by (rule grid_cell_cases)
    with assms(9) obtain s d where
      "pull_at params cells y x = Some s" "cell_density s = Finite d" "d \<noteq> 0"
      by blast
    with pull_eq[OF assms(1) xy(1-4)] xy(5)
    have d: "cell_density (pulled params cells k) = Finite d" "d \<noteq> 0"
      by auto
    have "cell_of tmp' k = fst (relax (Finite om) (pulled params cells k))"
      using s(3) k' assms(8) by (simp add: scratch_cell_def assms(7) split: prod.splits)
    with relax_proper(3)[OF d, of om] d(1) show ?thesis by simp
  qed
  have "density_upto tmp' (nx params * ny params) =
        (\<Sum>k<?n. cell_density (pulled params cells k))"
    unfolding density_upto_def using cell by (intro sum.cong refl) simp
  also have "\<dots> = density_upto cells (nx params * ny params)"
    unfolding density_upto_def by (rule density_pulled[OF assms(4) nn(3)])
  finally have eq: "total_density params tmp' = total_density params cells"
    using total_density_eq[OF s(2) nn(1,2)] total_density_eq[OF assms(1) nn(1,2)] by simp
  obtain r where "(\<Sum>k<?n. cell_density (pulled params cells k)) = Finite r"
    using sum_Finite[of "{..<?n}" "\<lambda>k. cell_density (pulled params cells k)"] cell by auto
  then have "total_density params cells = Some (Finite r)"
    using total_density_eq[OF assms(1) nn(1,2)] density_pulled[OF assms(4) nn(3), of cells]
    by (simp add: density_upto_def)
  with eq a s(1) show ?thesis
    by (simp add: timestep_def)
qed

theorem total_density_conserved_witness:
  "\<exists>cells' tmp' av d. timestep ex_still_params ex_cells ex_tmp_cells [0, 0, 0, 0] = Some (cells', tmp', av) \<and>
     total_density ex_still_params ex_cells = Some (Finite d) \<and>
     total_density ex_still_params tmp' = Some (Finite d)"
proof -
  have xy: "x = 0 \<or> x = 1" "y = 0 \<or> y = 1"
    if "0 \<le> x" "x < nx ex_still_params" "0 \<le> y" "y < ny ex_still_params" for x y :: int
    using that by (auto simp: ex_still_params_def)
  have p: "\<forall>x y. 0 \<le> x \<and> x < nx ex_still_params \<and> 0 \<le> y \<and> y < ny ex_still_params \<longrightarrow>
      (\<exists>s d. pull_at ex_still_params ex_cells y x = Some s \<and> cell_density s = Finite d \<and> d \<noteq> 0)"
  proof (intro allI impI)
    fix x y
    assume "0 \<le> x \<and> x < nx ex_still_params \<and> 0 \<le> y \<and> y < ny ex_still_params"
    then have "x = 0 \<or> x = 1" "y = 0 \<or> y = 1" using xy by blast+
    then show "\<exists>s d. pull_at ex_still_params ex_cells y x = Some s \<and> cell_density s = Finite d \<and> d \<noteq> 0"
      by (elim disjE)
         (simp_all add: ex_still_params_def ex_cells_def pull_at_def pull_def rd_def cell_density_def)
  qed
  have o: "\<forall>k. int k < nx ex_still_params * ny ex_still_params \<longrightarrow> [0, 0, 0, 0::int] ! k = 0"
  proof (intro allI impI)
    fix k :: nat
    assume "int k < nx ex_still_params * ny ex_still_params"
    then have "k < 4" by (simp add: ex_still_params_def)
    then have "k = 0 \<or> k = 1 \<or> k = 2 \<or> k = 3" by linarith
    then show "[0, 0, 0, 0::int] ! k = 0" by auto
  qed
  show ?thesis
    using o p
    by (intro total_density_conserved[where om = 1])
       (simp_all add: ex_still_params_def ex_cells_def ex_tmp_cells_def allocated_def sized_def)
qed

theorem total_density_conserved_counterexample:
  "total_density ex_still_params ex_zero_cells = Some (Finite 0) \<and>
   Option.bind (map_option (fst \<circ> snd)
       (timestep ex_still_params ex_zero_cells ex_tmp_cells [0, 0, 0, 0]))
     (total_density ex_still_params) = Some NonFinite"
  by (simp add: timestep_def accelerate_flow_def accelerate_cell_def stream_collide_def
      timestep_cell_def pull_def relax_def total_density_def total_density_cell_def rd_def wr_def
      Let_def ex_still_params_def ex_zero_cells_def ex_tmp_cells_def upto.simps float_of_int_def)

text \<open>
  C6 (as amended). In exact arithmetic the uniform grid at rest is a fixed point:
  \<^verbatim>\<open>initialise\<close> fills every cell with \<open>density * 4 / 9\<close> in direction 0, \<open>density / 9\<close> in
  the directions 1 to 4 and \<open>density / 36\<close> in the directions 5 to 8, and marks no cell
  as an obstacle. With a positive density and \<open>accel = 0\<close>, one \<^verbatim>\<open>timestep\<close> from that
  grid, computed with real numbers, returns, leaves the grid as it is, writes the same
  values to the scratch grid, and returns the mean velocity 0.

  In single precision the values change. For the density 0.3 and \<open>omega = 1.85\<close> (as
  \<^verbatim>\<open>float\<close>s), \<^verbatim>\<open>initialise\<close> stores \<open>8947849 / 2\<^sup>2\<^sup>6\<close> (0.13333334) in direction 0 of every
  cell, and one \<^verbatim>\<open>timestep\<close> with \<open>accel = 0\<close> writes \<open>8947847 / 2\<^sup>2\<^sup>6\<close> (0.13333331) there, and
  likewise a smaller value in each of the other eight directions; the mean velocity it
  returns is 0.
\<close>

theorem equilibrium_fixed_point:
  assumes "allocated params cells" "allocated params tmp_cells" "sized params obstacles"
    and "0 < nx params" "2 \<le> ny params"
    and "density params = Finite d" "0 < d" "accel params = Finite 0" "omega params = Finite om"
  shows "\<exists>cells0 obstacles0. initialise params cells obstacles = Some (cells0, obstacles0) \<and>
     (\<forall>k. int k < nx params * ny params \<longrightarrow> obstacles0 ! k = 0 \<and>
        cell_of cells0 k =
          (Finite (d * 4 / 9), Finite (d / 9), Finite (d / 9), Finite (d / 9), Finite (d / 9),
           Finite (d / 36), Finite (d / 36), Finite (d / 36), Finite (d / 36))) \<and>
     timestep params cells0 tmp_cells obstacles0 = Some (cells0, cells0, Finite 0)"
proof -
  let ?n = "nat (nx params * ny params)"
  let ?e = "(Finite (d * 4 / 9), Finite (d / 9), Finite (d / 9), Finite (d / 9), Finite (d / 9),
             Finite (d / 36), Finite (d / 36), Finite (d / 36), Finite (d / 36))"
  define cells0 where "cells0 = fst (initialise_upto params cells obstacles (nx params * ny params))"
  define obstacles0 where
    "obstacles0 = snd (initialise_upto params cells obstacles (nx params * ny params))"
  have nn: "0 \<le> nx params" "0 \<le> ny params" "0 < nx params * ny params"
    using assms(4,5) by auto
  have i: "initialise params cells obstacles = Some (cells0, obstacles0)"
    using initialise_eq[OF assms(1,3) nn(1,2)] by (simp add: cells0_def obstacles0_def)
  note f = initialise_upto_full[OF assms(1,3), folded cells0_def obstacles0_def]
  have c0: "cell_of cells0 k = ?e" if "int k < nx params * ny params" for k
    using f(4)[OF that] by (simp add: assms(6))
  have a: "accelerate_flow params cells0 obstacles0 = Some cells0"
    using f(1,2) nn(1) assms(5,8) by (rule accelerate_flow_zero)
  from stream_collide_cells[OF f(1) assms(2) f(2) nn(1,2)]
  obtain tmp' av where s: "stream_collide params cells0 tmp_cells obstacles0 = Some (tmp', av)"
    "allocated params tmp'"
    "\<forall>k. int k < nx params * ny params \<longrightarrow>
        cell_of tmp' k = scratch_cell params cells0 tmp_cells obstacles0 k"
    "av = (\<Sum>k<?n. cell_u params cells0 obstacles0 k) / float_of_int (free_count obstacles0 ?n)"
    by blast
  have p: "pulled params cells0 k = ?e" if "int k < nx params * ny params" for k
    using f(1) c0 that nn(2) by (rule pulled_const)
  have d: "d \<noteq> 0" using assms(7) by simp
  have "cell_of tmp' k = cell_of cells0 k" if k: "int k < nx params * ny params" for k
    using s(3) k f(3)[OF k]
    by (simp add: scratch_cell_def p[OF k] c0[OF k] assms(9) equilibrium_fixed[OF d])
  with s(2) f(1) have t: "tmp' = cells0"
    by (rule cells_eqI)
  have "cell_u params cells0 obstacles0 k = 0" if "k < ?n" for k
    using that f(3)[of k]
    by (simp add: cell_u_def p assms(9) equilibrium_fixed[OF d] zero_cfloat_def)
  then have "(\<Sum>k<?n. cell_u params cells0 obstacles0 k) = 0"
    by (intro sum.neutral) simp
  then have "(\<Sum>k<?n. cell_u params cells0 obstacles0 k) = Finite 0"
    by (simp only: zero_cfloat_def)
  moreover have "free_count obstacles0 ?n = int ?n"
    using f(3) by (intro free_count_all) simp
  ultimately have "av = Finite 0"
    using assms(4,5) by (simp add: s(4) float_of_int_def)
  with a s(1) t have "timestep params cells0 tmp_cells obstacles0 = Some (cells0, cells0, Finite 0)"
    by (simp add: timestep_def)
  with i c0 f(3) show ?thesis by blast
qed

theorem equilibrium_fixed_point_witness:
  "\<exists>cells0 obstacles0. initialise ex_still_params ex_cells ex_obstacles = Some (cells0, obstacles0) \<and>
     obstacles0 ! 3 = 0 \<and>
     cell_of cells0 3 =
       (Finite 4, Finite 1, Finite 1, Finite 1, Finite 1,
        Finite (1 / 4), Finite (1 / 4), Finite (1 / 4), Finite (1 / 4)) \<and>
     timestep ex_still_params cells0 ex_tmp_cells obstacles0 = Some (cells0, cells0, Finite 0)"
proof -
  from equilibrium_fixed_point[of ex_still_params ex_cells ex_tmp_cells ex_obstacles 9 1]
  obtain cells0 obstacles0 where
    r: "initialise ex_still_params ex_cells ex_obstacles = Some (cells0, obstacles0)"
    "\<forall>k. int k < nx ex_still_params * ny ex_still_params \<longrightarrow> obstacles0 ! k = 0 \<and>
        cell_of cells0 k =
          (Finite (9 * 4 / 9), Finite (9 / 9), Finite (9 / 9), Finite (9 / 9), Finite (9 / 9),
           Finite (9 / 36), Finite (9 / 36), Finite (9 / 36), Finite (9 / 36))"
    "timestep ex_still_params cells0 ex_tmp_cells obstacles0 = Some (cells0, cells0, Finite 0)"
    by (auto simp: ex_still_params_def ex_cells_def ex_tmp_cells_def ex_obstacles_def
        allocated_def sized_def)
  from r(2)[rule_format, of 3] have "obstacles0 ! 3 = 0"
    "cell_of cells0 3 =
       (Finite 4, Finite 1, Finite 1, Finite 1, Finite 1,
        Finite (1 / 4), Finite (1 / 4), Finite (1 / 4), Finite (1 / 4))"
    by (simp_all add: ex_still_params_def)
  with r(1,3) show ?thesis by blast
qed

theorem equilibrium_fixed_point_counterexample:
  "density ex32_params = round32 (3 / 10) \<and> omega ex32_params = round32 (37 / 20) \<and>
   accel ex32_params = Finite 0 \<and>
   initialise32 ex32_params ex_cells ex_obstacles = Some (ex32_grid 8947849, [0, 0, 0, 0]) \<and>
   timestep32 ex32_params (ex32_grid 8947849) ex_tmp_cells [0, 0, 0, 0]
     = Some (ex32_grid 8947849, ex32_grid 8947847, Finite 0) \<and>
   cell_of (ex32_grid 8947849) 0 =
     (Finite (8947849 / 67108864),
      Finite (8947849 / 268435456), Finite (8947849 / 268435456),
      Finite (8947849 / 268435456), Finite (8947849 / 268435456),
      Finite (8947849 / 1073741824), Finite (8947849 / 1073741824),
      Finite (8947849 / 1073741824), Finite (8947849 / 1073741824)) \<and>
   cell_of (ex32_grid 8947847) 0 =
     (Finite (8947847 / 67108864),
      Finite (8947847 / 268435456), Finite (8947847 / 268435456),
      Finite (8947847 / 268435456), Finite (8947847 / 268435456),
      Finite (8947847 / 1073741824), Finite (8947847 / 1073741824),
      Finite (8947847 / 1073741824), Finite (8947847 / 1073741824))"
proof -
  have "density ex32_params = round32 (3 / 10)" "omega ex32_params = round32 (37 / 20)"
    "accel ex32_params = Finite 0"
    by (simp_all add: ex32_params_def single_precision)
  moreover have
    "initialise32 ex32_params ex_cells ex_obstacles = Some (ex32_grid 8947849, [0, 0, 0, 0])"
    by (simp add: initialise32_def initialise_cell_def ex32_params_def ex_cells_def
        ex_obstacles_def ex32_grid_def rd_def wr_def upto.simps single_precision)
  moreover have "timestep32 ex32_params (ex32_grid 8947849) ex_tmp_cells [0, 0, 0, 0]
     = Some (ex32_grid 8947849, ex32_grid 8947847, Finite 0)"
    by (simp add: timestep32_def accelerate_flow32_def accelerate_cell32_def stream_collide32_def
        timestep_cell32_def pull_def ex32_params_def ex_tmp_cells_def ex32_grid_def rd_def wr_def
        upto.simps relax32_example single_precision)
  ultimately show ?thesis
    by (simp add: cell_of_def ex32_grid_def)
qed

text \<open>
  C7 (as amended). For every obstacle map with at least one free cell and every grid in
  which the pulled local density of every free cell is a nonzero number, the pass
  returns a number, and \<^verbatim>\<open>av_velocity\<close> applied to the scratch grid the pass produced
  returns the same number.
\<close>

theorem av_velocity_agrees:
  assumes "allocated params cells" "allocated params tmp_cells" "sized params obstacles"
    and "0 \<le> nx params" "0 \<le> ny params"
    and "omega params = Finite om"
    and "\<exists>x y. 0 \<le> x \<and> x < nx params \<and> 0 \<le> y \<and> y < ny params \<and>
           obstacles ! nat (x + y * nx params) = 0"
    and "\<forall>x y. 0 \<le> x \<and> x < nx params \<and> 0 \<le> y \<and> y < ny params \<and>
           obstacles ! nat (x + y * nx params) = 0 \<longrightarrow>
           (\<exists>s d. pull_at params cells y x = Some s \<and> cell_density s = Finite d \<and> d \<noteq> 0)"
  shows "\<exists>v. diagnostic_pair params cells tmp_cells obstacles = Some (Finite v, Finite v)"
proof -
  let ?n = "nat (nx params * ny params)"
  from stream_collide_cells[OF assms(1-5)]
  obtain tmp' av where s: "stream_collide params cells tmp_cells obstacles = Some (tmp', av)"
    "allocated params tmp'"
    "\<forall>k. int k < nx params * ny params \<longrightarrow>
        cell_of tmp' k = scratch_cell params cells tmp_cells obstacles k"
    "av = (\<Sum>k<?n. cell_u params cells obstacles k) / float_of_int (free_count obstacles ?n)"
    by blast
  have proper: "\<exists>d. cell_density (pulled params cells k) = Finite d \<and> d \<noteq> 0"
    if k: "k < ?n" "obstacles ! k = 0" for k
  proof -
    from k(1) have "int k < nx params * ny params" by simp
    then obtain x y where xy: "0 \<le> x" "x < nx params" "0 \<le> y" "y < ny params"
      "k = nat (x + y * nx params)"
      using assms(5) by (rule grid_cell_cases)
    with assms(8) k(2) obtain s d where
      "pull_at params cells y x = Some s" "cell_density s = Finite d" "d \<noteq> 0"
      by blast
    with pull_eq[OF assms(1) xy(1-4)] xy(5) show ?thesis by auto
  qed
  have cell: "(if obstacles ! k = 0 then cell_speed (cell_of tmp' k) else 0) =
              cell_u params cells obstacles k \<and> (\<exists>r. cell_u params cells obstacles k = Finite r)"
    if k: "k < ?n" for k
  proof (cases "obstacles ! k = 0")
    case True
    from proper[OF k True] obtain d where
      d: "cell_density (pulled params cells k) = Finite d" "d \<noteq> 0"
      by blast
    have "cell_of tmp' k = fst (relax (Finite om) (pulled params cells k))"
      using s(3) k True by (simp add: scratch_cell_def assms(6) split: prod.splits)
    with True relax_proper(1,2)[OF d, of om] show ?thesis
      by (simp add: cell_u_def assms(6))
  next
    case False
    then show ?thesis by (simp add: cell_u_def zero_cfloat_def)
  qed
  have sums: "(\<Sum>k<?n. if obstacles ! k = 0 then cell_speed (cell_of tmp' k) else 0) =
              (\<Sum>k<?n. cell_u params cells obstacles k)"
    using cell by (intro sum.cong refl) simp
  obtain r where r: "(\<Sum>k<?n. cell_u params cells obstacles k) = Finite r"
    using sum_Finite[of "{..<?n}" "cell_u params cells obstacles"] cell by auto
  have av': "av_velocity params tmp' obstacles = Some av"
    using av_velocity_eq[OF s(2) assms(3-5)] by (simp add: av_upto_def sums s(4))
  from assms(7) obtain x y where xy: "0 \<le> x" "x < nx params" "0 \<le> y" "y < ny params"
    "obstacles ! nat (x + y * nx params) = 0"
    by blast
  have "nat (x + y * nx params) < ?n"
    using cell_index_bounds[OF xy(1-4)] by auto
  from free_count_pos[OF this xy(5)] have "av = Finite (r / real_of_int (free_count obstacles ?n))"
    by (simp add: s(4) r float_of_int_def)
  with s(1) av' show ?thesis
    by (simp add: diagnostic_pair_def)
qed

theorem av_velocity_agrees_witness:
  "\<exists>v. diagnostic_pair ex_params ex_cells ex_tmp_cells ex_obstacles = Some (Finite v, Finite v)"
proof -
  have xy: "x = 0 \<or> x = 1" "y = 0 \<or> y = 1"
    if "0 \<le> x" "x < nx ex_params" "0 \<le> y" "y < ny ex_params" for x y :: int
    using that by (auto simp: ex_params_def)
  have "\<forall>x y. 0 \<le> x \<and> x < nx ex_params \<and> 0 \<le> y \<and> y < ny ex_params \<and>
           ex_obstacles ! nat (x + y * nx ex_params) = 0 \<longrightarrow>
           (\<exists>s d. pull_at ex_params ex_cells y x = Some s \<and> cell_density s = Finite d \<and> d \<noteq> 0)"
  proof (intro allI impI)
    fix x y
    assume a: "0 \<le> x \<and> x < nx ex_params \<and> 0 \<le> y \<and> y < ny ex_params \<and>
           ex_obstacles ! nat (x + y * nx ex_params) = 0"
    then have "x = 0 \<or> x = 1" "y = 0 \<or> y = 1" using xy by blast+
    then show "\<exists>s d. pull_at ex_params ex_cells y x = Some s \<and> cell_density s = Finite d \<and> d \<noteq> 0"
      by (elim disjE)
         (simp_all add: ex_params_def ex_cells_def pull_at_def pull_def rd_def cell_density_def)
  qed
  moreover have "\<exists>x y. 0 \<le> x \<and> x < nx ex_params \<and> 0 \<le> y \<and> y < ny ex_params \<and>
           ex_obstacles ! nat (x + y * nx ex_params) = 0"
    by (intro exI[of _ 0]) (simp add: ex_params_def ex_obstacles_def)
  ultimately show ?thesis
    by (intro av_velocity_agrees[where om = 1])
       (simp_all add: ex_params_def ex_cells_def ex_tmp_cells_def ex_obstacles_def allocated_def
         sized_def)
qed

theorem av_velocity_agrees_counterexample:
  "diagnostic_pair ex_params ex_zero_cells ex_tmp_cells [0, 0, 0, 0] = Some (NonFinite, NonFinite)"
  by (simp add: diagnostic_pair_def stream_collide_def timestep_cell_def pull_def relax_def
      av_velocity_def av_velocity_cell_def rd_def wr_def Let_def ex_params_def ex_zero_cells_def
      ex_tmp_cells_def upto.simps float_of_int_def)

text \<open>
  C8 (as amended). When every cell of the grid is an obstacle, \<^verbatim>\<open>timestep\<close> has no special
  case: it returns, the count of free cells after the pass is 0, and the value it
  returns is the quotient of \<^verbatim>\<open>tot_u = 0\<close> by that count, which is no number (the NaN
  \<open>0 / 0\<close> of the float arithmetic).
\<close>

theorem timestep_all_obstacles:
  assumes "allocated params cells" "allocated params tmp_cells" "sized params obstacles"
    and "0 \<le> nx params" "2 \<le> ny params"
    and "\<forall>k. int k < nx params * ny params \<longrightarrow> obstacles ! k \<noteq> 0"
  shows "\<exists>cells' tmp'. timestep params cells tmp_cells obstacles = Some (cells', tmp', NonFinite)"
proof -
  let ?n = "nat (nx params * ny params)"
  let ?c = "accelerate_upto params cells obstacles (nx params)"
  have a: "accelerate_flow params cells obstacles = Some ?c"
    using assms by (intro accelerate_flow_eq) auto
  have "allocated params ?c"
    using assms(1) by (rule allocated_accelerate_upto)
  from stream_collide_cells[OF this assms(2,3,4)] assms(5)
  obtain tmp' av where s: "stream_collide params ?c tmp_cells obstacles = Some (tmp', av)"
    "av = (\<Sum>k<?n. cell_u params ?c obstacles k) / float_of_int (free_count obstacles ?n)"
    by auto
  have "free_count obstacles ?n = 0"
    using assms(6) by (intro free_count_none) auto
  then have "av = NonFinite"
    by (simp add: s(2) float_of_int_def cfloat_divide_zero)
  with a s(1) show ?thesis
    by (simp add: timestep_def)
qed

theorem timestep_all_obstacles_witness:
  "\<exists>cells' tmp'. timestep ex_params ex_cells ex_tmp_cells [1, 1, 1, 1] = Some (cells', tmp', NonFinite)"
proof -
  have "\<forall>k. int k < nx ex_params * ny ex_params \<longrightarrow> [1, 1, 1, 1::int] ! k \<noteq> 0"
  proof (intro allI impI)
    fix k :: nat
    assume "int k < nx ex_params * ny ex_params"
    then have "k < 4" by (simp add: ex_params_def)
    then have "k = 0 \<or> k = 1 \<or> k = 2 \<or> k = 3" by linarith
    then show "[1, 1, 1, 1::int] ! k \<noteq> 0" by auto
  qed
  then show ?thesis
    by (intro timestep_all_obstacles)
       (simp_all add: ex_params_def ex_cells_def ex_tmp_cells_def allocated_def sized_def)
qed

theorem timestep_all_obstacles_counterexample:
  "map_option (snd \<circ> snd) (timestep ex_params ex_cells ex_tmp_cells [1, 1, 1, 1]) = Some NonFinite"
  by (simp add: timestep_def accelerate_flow_def accelerate_cell_def stream_collide_def
      timestep_cell_def pull_def rd_def wr_def Let_def ex_params_def ex_cells_def ex_tmp_cells_def
      upto.simps float_of_int_def)

text \<open>
  C9. The pass returns, and at an obstacle cell it has written the directions 1 to 8 of
  the scratch grid (the mirrored values) and left direction 0 as the scratch grid held
  it before the pass; at a cell that is not an obstacle direction 0 of the scratch
  grid holds the relaxed value computed from the pulled values, whose direction 0 is
  the value of the cell itself in the current grid.
\<close>

theorem obstacle_rest_direction_kept:
  assumes "allocated params cells" "allocated params tmp_cells" "sized params obstacles"
    and "0 \<le> x" "x < nx params" "0 \<le> y" "y < ny params"
  shows "\<exists>s0 s1 s2 s3 s4 s5 s6 s7 s8 tmp' av.
     pull_at params cells y x = Some (s0, s1, s2, s3, s4, s5, s6, s7, s8) \<and>
     s0 = speeds0 cells ! nat (x + y * nx params) \<and>
     stream_collide params cells tmp_cells obstacles = Some (tmp', av) \<and>
     (if obstacles ! nat (x + y * nx params) \<noteq> 0
      then speeds0 tmp' ! nat (x + y * nx params) = speeds0 tmp_cells ! nat (x + y * nx params) \<and>
           (speeds1 tmp' ! nat (x + y * nx params), speeds2 tmp' ! nat (x + y * nx params),
            speeds3 tmp' ! nat (x + y * nx params), speeds4 tmp' ! nat (x + y * nx params),
            speeds5 tmp' ! nat (x + y * nx params), speeds6 tmp' ! nat (x + y * nx params),
            speeds7 tmp' ! nat (x + y * nx params), speeds8 tmp' ! nat (x + y * nx params))
           = (s3, s4, s1, s2, s7, s8, s5, s6)
      else speeds0 tmp' ! nat (x + y * nx params) =
             sel0 (fst (relax (omega params) (s0, s1, s2, s3, s4, s5, s6, s7, s8))))"
proof -
  from stream_collide_at[OF assms(1-7)]
  obtain s tmp' av where r: "pull_at params cells y x = Some s"
    "s = pulled params cells (nat (x + y * nx params))"
    "stream_collide params cells tmp_cells obstacles = Some (tmp', av)"
    "cell_of tmp' (nat (x + y * nx params)) =
       scratch_cell params cells tmp_cells obstacles (nat (x + y * nx params))"
    by blast
  obtain s0 s1 s2 s3 s4 s5 s6 s7 s8 where s: "s = (s0, s1, s2, s3, s4, s5, s6, s7, s8)"
    by (cases s) auto
  have b: "0 \<le> x + y * nx params"
    using cell_index_bounds[OF assms(4-7)] by auto
  have p: "pulled params cells (nat (x + y * nx params)) = (s0, s1, s2, s3, s4, s5, s6, s7, s8)"
    using r(2) s by simp
  have s0: "s0 = speeds0 cells ! nat (x + y * nx params)"
    using p[symmetric] b cell_index_decode[OF assms(4,5), of y]
    by (simp add: pulled_def Let_def)
  obtain r0 r1 r2 r3 r4 r5 r6 r7 r8 u where
    rl: "relax (omega params) (s0, s1, s2, s3, s4, s5, s6, s7, s8) =
          ((r0, r1, r2, r3, r4, r5, r6, r7, r8), u)"
    by (cases "relax (omega params) (s0, s1, s2, s3, s4, s5, s6, s7, s8)") auto
  have "cell_of tmp' (nat (x + y * nx params)) =
      (if obstacles ! nat (x + y * nx params) \<noteq> 0
       then (speeds0 tmp_cells ! nat (x + y * nx params), s3, s4, s1, s2, s7, s8, s5, s6)
       else (r0, r1, r2, r3, r4, r5, r6, r7, r8))"
    by (simp add: r(4) scratch_cell_def p rl)
  then show ?thesis
    using r(1,3) s s0 rl by (auto simp: cell_of_def split: if_splits)
qed

theorem obstacle_rest_direction_kept_witness:
  "\<exists>tmp' av. stream_collide ex_params ex_cells ex_tmp_cells ex_obstacles = Some (tmp', av) \<and>
     speeds0 tmp' ! 3 = speeds0 ex_tmp_cells ! 3 \<and>
     speeds0 ex_tmp_cells ! 3 = Finite 7 \<and>
     speeds0 tmp' ! 0 =
       sel0 (fst (relax (Finite 1)
         (Finite 16, Finite 4, Finite 4, Finite 4, Finite 4, Finite 1, Finite 2, Finite 2, Finite 1)))"
  using obstacle_rest_direction_kept[of ex_params ex_cells ex_tmp_cells ex_obstacles 1 1]
    obstacle_rest_direction_kept[of ex_params ex_cells ex_tmp_cells ex_obstacles 0 0]
  by (auto simp: ex_params_def ex_cells_def ex_tmp_cells_def ex_obstacles_def allocated_def
      sized_def pull_at_def pull_def rd_def)

text \<open>
  C10. \<^verbatim>\<open>accelerate_flow\<close> returns and leaves the local density of every cell of the grid
  (the sum of its nine values) as it was; hence \<^verbatim>\<open>total_density\<close> returns the same
  value on the grid before and after.
\<close>

theorem accelerate_flow_density:
  assumes "allocated params cells" "sized params obstacles" "0 \<le> nx params" "2 \<le> ny params"
  shows "\<exists>cells'. accelerate_flow params cells obstacles = Some cells' \<and>
     (\<forall>x y. 0 \<le> x \<and> x < nx params \<and> 0 \<le> y \<and> y < ny params \<longrightarrow>
        cell_density (cell_of cells' (nat (x + y * nx params))) =
        cell_density (cell_of cells (nat (x + y * nx params)))) \<and>
     (\<exists>d. total_density params cells = Some d \<and> total_density params cells' = Some d)"
proof -
  let ?c = "accelerate_upto params cells obstacles (nx params)"
  have 1: "accelerate_flow params cells obstacles = Some ?c"
    using assms by (intro accelerate_flow_eq) auto
  have 2: "cell_density (cell_of ?c (nat (x + y * nx params))) =
           cell_density (cell_of cells (nat (x + y * nx params)))"
    if "0 \<le> x" "x < nx params" "0 \<le> y" "y < ny params" for x y
    using cell_index_bounds[OF that] by (intro density_accelerate_upto[OF assms(1)]) auto
  have "density_upto ?c (nx params * ny params) = density_upto cells (nx params * ny params)"
    unfolding density_upto_def
    by (intro sum.cong refl density_accelerate_upto[OF assms(1)]) auto
  then have 3: "total_density params ?c = total_density params cells"
    using assms by (simp add: total_density_eq allocated_accelerate_upto)
  have 4: "total_density params cells = Some (density_upto cells (nx params * ny params))"
    using assms by (simp add: total_density_eq)
  show ?thesis
    using 1 2 3 4 by auto
qed

theorem accelerate_flow_density_witness:
  "\<exists>cells'. accelerate_flow ex_params ex_cells ex_obstacles = Some cells' \<and>
     cell_density (cell_of cells' 0) = Finite 39 \<and>
     cell_density (cell_of ex_cells 0) = Finite 39 \<and>
     (\<exists>d. total_density ex_params ex_cells = Some d \<and> total_density ex_params cells' = Some d)"
proof -
  have "allocated ex_params ex_cells" "sized ex_params ex_obstacles"
    "0 \<le> nx ex_params" "2 \<le> ny ex_params"
    by (simp_all add: ex_params_def ex_cells_def ex_obstacles_def allocated_def sized_def)
  from accelerate_flow_density[OF this]
  obtain cells' where c: "accelerate_flow ex_params ex_cells ex_obstacles = Some cells'"
    "\<forall>x y. 0 \<le> x \<and> x < nx ex_params \<and> 0 \<le> y \<and> y < ny ex_params \<longrightarrow>
        cell_density (cell_of cells' (nat (x + y * nx ex_params))) =
        cell_density (cell_of ex_cells (nat (x + y * nx ex_params)))"
    "\<exists>d. total_density ex_params ex_cells = Some d \<and> total_density ex_params cells' = Some d"
    by blast
  from c(2)[rule_format, of 0 0]
  have "cell_density (cell_of cells' 0) = cell_density (cell_of ex_cells 0)"
    by (simp add: ex_params_def)
  moreover have "cell_density (cell_of ex_cells 0) = Finite 39"
    by (simp add: ex_cells_def cell_of_def cell_density_def)
  ultimately show ?thesis using c(1,3) by simp
qed

end
